theory Spec2Isabelle
  imports Main "HOL-Library.Word"
begin

section \<open>Identifiers and wire data\<close>

text \<open>
  Transaction ids and variable ids are fixed-length byte arrays (\<open>[KeyLen]byte\<close>), an RM id
  and a boot count are \<open>uint32\<close>. The capnp readers are modelled by the fields the two
  source files read from them.
\<close>

type_synonym byte = "8 word"
type_synonym RMId = "32 word"
type_synonym TxnId = "byte list"
type_synonym VarUUId = "byte list"
type_synonym VectorClockData = "byte list"

record Allocation =
  RmId :: "32 word"
  Active :: "32 word"
  ActionIndices :: "16 word list"

record Action =
  VarId :: "byte list"

text \<open>
  \<open>FInc\<close> is an unsigned capnp field; \<open>int(txnCap.FInc())\<close> is exact, so the arithmetic on
  it is written on \<open>int\<close>.
\<close>

record msgs_Txn =
  TopologyVersion :: "32 word"
  FInc :: nat
  Allocations :: "Allocation list"

text \<open>
  A \<open>TxnReader\<close>: the id, the capnp transaction and the decoded action list. The manager
  reads the action list only through its accessor \<open>At\<close> (code of the capnp library), so
  the list is modelled by that accessor.
\<close>

record TxnReader =
  Id_reader :: TxnId
  Txn_reader :: msgs_Txn
  Actions_At :: "nat \<Rightarrow> Action"

datatype Topology =
  Topology (Version: "32 word") (Next: "Topology option") (RMsRemoved: "RMId set")

datatype Vote = Commit | AbortBadRead | AbortDeadlock

record Ballot =
  VarUUId :: VarUUId
  Vote :: Vote
  Clock :: "VectorClockData option"
  BadRead :: "TxnId option"
  Subscriptions :: "byte list option"

text \<open>\<open>NewBallotBuilder(vUUId, vote, clock, subscriptions).ToBallot()\<close>\<close>

definition NewBallot :: "VarUUId \<Rightarrow> Vote \<Rightarrow> VectorClockData option \<Rightarrow> byte list option \<Rightarrow> Ballot" where
  "NewBallot vUUId vote clock subs =
     \<lparr>VarUUId = vUUId, Vote = vote, Clock = clock, BadRead = None, Subscriptions = subs\<rparr>"

text \<open>
  An outcome is a commit carrying the serialised vector clock, or anything else; every
  variant other than commit takes the abort branch of the code.
\<close>

datatype Outcome = OUTCOME_COMMIT VectorClockData | OUTCOME_ABORT

datatype TwoBTxnVotes =
    TWOBTXNVOTES_FAILURES "32 word" "byte list"
  | TWOBTXNVOTES_OUTCOME Outcome
  | TWOBTXNVOTES_other "16 word"

datatype Message =
    TxnLocallyComplete TxnId
  | TxnSubmissionComplete TxnId
  | TxnSubmissionAbort TxnId

text \<open>Go run-time panics and the explicit \<open>panic(...)\<close> calls of the two files.\<close>

datatype panic =
    NilPointerDereference
  | MakesliceLenOutOfRange
  | Unexpected2BVotesType
  | OutcomeInWrongState
  | PreAbortedButCommit
  | BallotsCompletedInWrongState
  | PreAbortInWrongState
  | ActiveFramesCountNegative
  | CompletionInWrongState
  | NextStateOnTerminal

section \<open>The proposer manager\<close>

type_synonym instanceIdPrefix = "byte list"

datatype ProposerMode = ProposerActiveVoter | ProposerActiveLearner | ProposerPassiveLearner

text \<open>
  \<open>Proposer\<close> and \<open>proposal\<close> are defined in files outside these sources. A value records
  the arguments of \<open>NewProposer\<close> and \<open>NewProposal\<close>; every method the manager calls on one
  of them, and every message it sends, is appended to the manager's \<open>calls\<close>.
\<close>

record Proposer =
  pr_txn :: TxnReader
  pr_mode :: ProposerMode
  pr_topology :: "Topology option"

record proposal =
  p_txn :: TxnReader
  p_fInc :: int
  p_ballots :: "Ballot option list"
  p_rmId :: RMId
  p_acceptors :: "RMId list"
  p_skipPhase1 :: bool

datatype Call =
    Proposer_Start TxnId
  | Proposer_TopologyChange "TxnId set" "Topology option"
  | Proposer_BallotOutcomeReceived TxnId RMId Outcome
  | Proposer_TxnGloballyCompleteReceived TxnId RMId
  | Proposer_Abort TxnId
  | Proposal_Start instanceIdPrefix
  | Proposal_AddBallots instanceIdPrefix "Ballot option list"
  | Proposal_OneBTxnVotesReceived instanceIdPrefix RMId "byte list"
  | Proposal_TwoBFailuresReceived instanceIdPrefix RMId "byte list"
  | Proposal_FinishProposing instanceIdPrefix
  | NewOneShotSender Message RMId
  | ImmigrationTxnFromCap_called TxnId
  | Log_unable_to_find_proposals TxnId RMId

record ProposerManager =
  RMId :: RMId
  BootCount :: "32 word"
  proposals :: "instanceIdPrefix \<rightharpoonup> proposal"
  proposers :: "TxnId \<rightharpoonup> Proposer"
  topology :: "Topology option"
  calls :: "Call list"

definition NewProposer :: "TxnReader \<Rightarrow> ProposerMode \<Rightarrow> Topology option \<Rightarrow> Proposer" where
  "NewProposer txn m topo = \<lparr>pr_txn = txn, pr_mode = m, pr_topology = topo\<rparr>"

definition NewProposal ::
  "TxnReader \<Rightarrow> int \<Rightarrow> Ballot option list \<Rightarrow> RMId \<Rightarrow> RMId list \<Rightarrow> bool \<Rightarrow> proposal" where
  "NewProposal txn f bs rmId accs skip =
     \<lparr>p_txn = txn, p_fInc = f, p_ballots = bs, p_rmId = rmId, p_acceptors = accs,
      p_skipPhase1 = skip\<rparr>"

text \<open>\<open>binary.BigEndian.PutUint32\<close>: the four bytes of a \<open>uint32\<close>, most significant first.\<close>

definition PutUint32 :: "32 word \<Rightarrow> byte list" where
  "PutUint32 w = [ucast (drop_bit 24 w), ucast (drop_bit 16 w), ucast (drop_bit 8 w), ucast w]"

text \<open>
  The key of a Paxos instance: the bytes of the transaction id copied to the front of a
  zeroed array of \<open>KeyLen + 4\<close> bytes, the RM id written big-endian behind them.
\<close>

definition instanceId :: "TxnId \<Rightarrow> RMId \<Rightarrow> instanceIdPrefix" where
  "instanceId txnId rmId = txnId @ PutUint32 rmId"

subsection \<open>GetAcceptorsFromTxn, AllocForRMId, MakeAbortBallots\<close>

text \<open>
  The loop of \<open>GetAcceptorsFromTxn\<close>: \<open>idx\<close> runs while it is below both the number of
  allocations and \<open>twoFInc\<close>, writing \<open>acceptors[idx]\<close>; it returns the final \<open>idx\<close> and the
  array.
\<close>

function GetAcceptors_loop ::
  "Allocation list \<Rightarrow> int \<Rightarrow> nat \<Rightarrow> RMId list \<Rightarrow> nat \<times> RMId list" where
  "GetAcceptors_loop allocations twoFInc idx acceptors =
     (if idx < length allocations \<and> int idx < twoFInc
      then GetAcceptors_loop allocations twoFInc (Suc idx)
             (acceptors[idx := RmId (allocations ! idx)])
      else (idx, acceptors))"
  by pat_completeness auto
termination
  by (relation "measure (\<lambda>(allocations, twoFInc, idx, acceptors). length allocations - idx)") auto

declare GetAcceptors_loop.simps [simp del]

text \<open>\<open>make([]common.RMId, twoFInc)\<close> panics when \<open>twoFInc\<close> is negative.\<close>

definition GetAcceptorsFromTxn :: "msgs_Txn \<Rightarrow> panic + RMId list" where
  "GetAcceptorsFromTxn txnCap =
     (let fInc = int (FInc txnCap);
          twoFInc = fInc + fInc - 1
      in if twoFInc < 0 then Inl MakesliceLenOutOfRange
         else (case GetAcceptors_loop (Allocations txnCap) twoFInc 0 (replicate (nat twoFInc) 0) of
                 (idx, acceptors) \<Rightarrow> Inr (take idx acceptors)))"

text \<open>\<open>AllocForRMId\<close>: a pointer to the first allocation of the RM, \<open>nil\<close> when there is none.\<close>

fun AllocForRMId_loop :: "Allocation list \<Rightarrow> RMId \<Rightarrow> Allocation option" where
  "AllocForRMId_loop [] rmId = None"
| "AllocForRMId_loop (alloc # allocs) rmId =
     (if RmId alloc = rmId then Some alloc else AllocForRMId_loop allocs rmId)"

definition AllocForRMId :: "msgs_Txn \<Rightarrow> RMId \<Rightarrow> Allocation option" where
  "AllocForRMId txn rmId = AllocForRMId_loop (Allocations txn) rmId"

text \<open>
  \<open>MakeAbortBallots\<close> calls \<open>alloc.ActionIndices()\<close>, a method with a value receiver, on the
  pointer it is given: a \<open>nil\<close> pointer faults there. Its loop fills a slice of ballot
  pointers, \<open>nil\<close> at first, one index at a time.
\<close>

function MakeAbortBallots_loop ::
  "TxnReader \<Rightarrow> 16 word list \<Rightarrow> nat \<Rightarrow> Ballot option list \<Rightarrow> Ballot option list" where
  "MakeAbortBallots_loop txn actionIndices idx bs =
     (if idx < length actionIndices
      then MakeAbortBallots_loop txn actionIndices (Suc idx)
             (bs[idx := Some (NewBallot (VarId (Actions_At txn (unat (actionIndices ! idx))))
                               AbortDeadlock None None)])
      else bs)"
  by pat_completeness auto
termination
  by (relation "measure (\<lambda>(txn, actionIndices, idx, bs). length actionIndices - idx)") auto

declare MakeAbortBallots_loop.simps [simp del]

definition MakeAbortBallots :: "TxnReader \<Rightarrow> Allocation option \<Rightarrow> panic + Ballot option list" where
  "MakeAbortBallots txn alloc =
     (case alloc of
        None \<Rightarrow> Inl NilPointerDereference
      | Some a \<Rightarrow>
          Inr (MakeAbortBallots_loop txn (ActionIndices a) 0
                 (replicate (length (ActionIndices a)) None)))"

subsection \<open>The manager's operations\<close>

definition NewPaxosProposals ::
  "ProposerManager \<Rightarrow> TxnReader \<Rightarrow> int \<Rightarrow> Ballot option list \<Rightarrow> RMId list \<Rightarrow> RMId \<Rightarrow> bool
     \<Rightarrow> ProposerManager" where
  "NewPaxosProposals pm txn f bs accs rmId skip =
     (let instId = instanceId (Id_reader txn) rmId
      in case proposals pm instId of
           None \<Rightarrow>
             pm\<lparr>proposals := (proposals pm)(instId \<mapsto> NewProposal txn f bs rmId accs skip),
                calls := calls pm @ [Proposal_Start instId]\<rparr>
         | Some prop \<Rightarrow> pm)"

text \<open>Installing a new proposer under the transaction's id and starting it.\<close>

definition installProposer ::
  "ProposerManager \<Rightarrow> TxnReader \<Rightarrow> ProposerMode \<Rightarrow> ProposerManager" where
  "installProposer pm txn m =
     pm\<lparr>proposers := (proposers pm)(Id_reader txn \<mapsto> NewProposer txn m (topology pm)),
        calls := calls pm @ [Proposer_Start (Id_reader txn)]\<rparr>"

text \<open>
  The loop of \<open>TxnReceived\<close> over the allocations: \<open>accept\<close> starts false and is decided by
  the first allocation of this RM.
\<close>

fun TxnReceived_loop :: "Allocation list \<Rightarrow> RMId \<Rightarrow> 32 word \<Rightarrow> bool" where
  "TxnReceived_loop [] rmId bootCount = False"
| "TxnReceived_loop (alloc # allocs) rmId bootCount =
     (if RmId alloc = rmId then Active alloc = bootCount
      else TxnReceived_loop allocs rmId bootCount)"

text \<open>The value of the variable \<open>accept\<close> when \<open>TxnReceived\<close> reaches \<open>if accept\<close>.\<close>

definition TxnReceived_accept :: "ProposerManager \<Rightarrow> RMId \<Rightarrow> TxnReader \<Rightarrow> bool" where
  "TxnReceived_accept pm sender txn =
     (case topology pm of
        None \<Rightarrow> True
      | Some topo \<Rightarrow>
          (let txnCap = Txn_reader txn;
               accept =
                 (case Next topo of
                    None \<Rightarrow> Version topo = TopologyVersion txnCap
                  | Some next \<Rightarrow> Version next = TopologyVersion txnCap)
           in if accept
              then (let found = sender \<in> RMsRemoved topo;
                        accept = \<not> found
                    in if accept
                       then TxnReceived_loop (Allocations txnCap) (RMId pm) (BootCount pm)
                       else accept)
              else accept))"

definition TxnReceived :: "ProposerManager \<Rightarrow> RMId \<Rightarrow> TxnReader \<Rightarrow> panic + ProposerManager" where
  "TxnReceived pm sender txn =
     (let txnId = Id_reader txn;
          txnCap = Txn_reader txn
      in case proposers pm txnId of
           Some proposer \<Rightarrow> Inr pm
         | None \<Rightarrow>
             if TxnReceived_accept pm sender txn
             then Inr (installProposer pm txn ProposerActiveVoter)
             else
               (case GetAcceptorsFromTxn txnCap of
                  Inl p \<Rightarrow> Inl p
                | Inr acceptors \<Rightarrow>
                    (let fInc = int (FInc txnCap);
                         alloc = AllocForRMId txnCap (RMId pm)
                     in case MakeAbortBallots txn alloc of
                          Inl p \<Rightarrow> Inl p
                        | Inr ballots \<Rightarrow>
                            Inr (installProposer
                                   (NewPaxosProposals pm txn fInc ballots acceptors (RMId pm) True)
                                   txn ProposerActiveLearner))))"

definition TwoBTxnVotesReceived ::
  "ProposerManager \<Rightarrow> RMId \<Rightarrow> TxnId \<Rightarrow> TxnReader \<Rightarrow> TwoBTxnVotes \<Rightarrow> panic + ProposerManager" where
  "TwoBTxnVotesReceived pm sender txnId txn twoBTxnVotes =
     (case twoBTxnVotes of
        TWOBTXNVOTES_FAILURES failuresRmId failures \<Rightarrow>
          (let instId = instanceId txnId failuresRmId
           in case proposals pm instId of
                Some prop \<Rightarrow>
                  Inr (pm\<lparr>calls := calls pm @
                             [Proposal_TwoBFailuresReceived instId sender failures]\<rparr>)
              | None \<Rightarrow> Inr pm)
      | TWOBTXNVOTES_OUTCOME outcome \<Rightarrow>
          (case proposers pm txnId of
             Some proposer \<Rightarrow>
               Inr (pm\<lparr>calls := calls pm @
                          [Proposer_BallotOutcomeReceived txnId sender outcome]\<rparr>)
           | None \<Rightarrow>
               (let txnCap = Txn_reader txn
                in case AllocForRMId txnCap (RMId pm) of
                     None \<Rightarrow> Inl NilPointerDereference
                   | Some alloc \<Rightarrow>
                       if Active alloc \<noteq> 0
                       then
                         (case GetAcceptorsFromTxn txnCap of
                            Inl p \<Rightarrow> Inl p
                          | Inr acceptors \<Rightarrow>
                              (let fInc = int (FInc txnCap)
                               in case MakeAbortBallots txn (Some alloc) of
                                    Inl p \<Rightarrow> Inl p
                                  | Inr ballots \<Rightarrow>
                                      (let pm1 = NewPaxosProposals pm txn fInc ballots acceptors
                                                   (RMId pm) False;
                                           pm2 = pm1\<lparr>proposers := (proposers pm1)(txnId \<mapsto>
                                                        NewProposer txn ProposerActiveLearner
                                                          (topology pm1)),
                                                      calls := calls pm1 @ [Proposer_Start txnId]\<rparr>
                                       in Inr (pm2\<lparr>calls := calls pm2 @
                                                 [Proposer_BallotOutcomeReceived txnId sender
                                                    outcome]\<rparr>))))
                       else
                         (case outcome of
                            OUTCOME_COMMIT clock \<Rightarrow>
                              (let pm1 = pm\<lparr>proposers := (proposers pm)(txnId \<mapsto>
                                              NewProposer txn ProposerPassiveLearner (topology pm)),
                                            calls := calls pm @ [Proposer_Start txnId]\<rparr>
                               in Inr (pm1\<lparr>calls := calls pm1 @
                                         [Proposer_BallotOutcomeReceived txnId sender outcome]\<rparr>))
                          | OUTCOME_ABORT \<Rightarrow>
                              Inr (pm\<lparr>calls := calls pm @
                                     [NewOneShotSender (TxnLocallyComplete txnId) sender]\<rparr>))))
      | TWOBTXNVOTES_other w \<Rightarrow> Inl Unexpected2BVotesType)"

text \<open>
  \<open>loadFromData\<close>: \<open>ProposerFromData\<close> is code outside these sources and is a parameter here;
  \<open>None\<close> stands for its error, which \<open>loadFromData\<close> returns to its caller.
\<close>

datatype error = ProposerFromData_error

definition loadFromData ::
  "(TxnId \<Rightarrow> byte list \<Rightarrow> Topology option \<Rightarrow> Proposer option)
     \<Rightarrow> ProposerManager \<Rightarrow> TxnId \<Rightarrow> byte list \<Rightarrow> error option \<times> ProposerManager" where
  "loadFromData ProposerFromData pm txnId data =
     (case proposers pm txnId of
        None \<Rightarrow>
          (case ProposerFromData txnId data (topology pm) of
             None \<Rightarrow> (Some ProposerFromData_error, pm)
           | Some proposer \<Rightarrow>
               (None, pm\<lparr>proposers := (proposers pm)(txnId \<mapsto> proposer),
                         calls := calls pm @ [Proposer_Start txnId]\<rparr>))
      | Some proposer \<Rightarrow> (None, pm))"

text \<open>
  The task that \<open>TopologyChanged\<close> enqueues: the stored topology is replaced and every live
  proposer is told (the map is ranged over in no fixed order, so the calls are recorded as
  one entry for the set of ids).
\<close>

definition TopologyChanged :: "ProposerManager \<Rightarrow> Topology option \<Rightarrow> ProposerManager" where
  "TopologyChanged pm topo =
     pm\<lparr>topology := topo,
        calls := calls pm @ [Proposer_TopologyChange (dom (proposers pm)) topo]\<rparr>"

definition ImmigrationReceived :: "ProposerManager \<Rightarrow> TxnReader \<Rightarrow> ProposerManager" where
  "ImmigrationReceived pm txn = pm\<lparr>calls := calls pm @ [ImmigrationTxnFromCap_called (Id_reader txn)]\<rparr>"

definition AddToPaxosProposals ::
  "ProposerManager \<Rightarrow> TxnId \<Rightarrow> Ballot option list \<Rightarrow> RMId \<Rightarrow> ProposerManager" where
  "AddToPaxosProposals pm txnId bs rmId =
     (let instId = instanceId txnId rmId
      in case proposals pm instId of
           Some prop \<Rightarrow> pm\<lparr>calls := calls pm @ [Proposal_AddBallots instId bs]\<rparr>
         | None \<Rightarrow> pm\<lparr>calls := calls pm @ [Log_unable_to_find_proposals txnId rmId]\<rparr>)"

definition OneBTxnVotesReceived ::
  "ProposerManager \<Rightarrow> RMId \<Rightarrow> TxnId \<Rightarrow> 32 word \<Rightarrow> byte list \<Rightarrow> ProposerManager" where
  "OneBTxnVotesReceived pm sender txnId oneBRmId oneBTxnVotes =
     (let instId = instanceId txnId oneBRmId
      in case proposals pm instId of
           Some prop \<Rightarrow>
             pm\<lparr>calls := calls pm @ [Proposal_OneBTxnVotesReceived instId sender oneBTxnVotes]\<rparr>
         | None \<Rightarrow> pm)"

definition TxnGloballyCompleteReceived ::
  "ProposerManager \<Rightarrow> RMId \<Rightarrow> TxnId \<Rightarrow> ProposerManager" where
  "TxnGloballyCompleteReceived pm sender txnId =
     (case proposers pm txnId of
        Some proposer \<Rightarrow>
          pm\<lparr>calls := calls pm @ [Proposer_TxnGloballyCompleteReceived txnId sender]\<rparr>
      | None \<Rightarrow> pm)"

definition TxnSubmissionAbortReceived ::
  "ProposerManager \<Rightarrow> RMId \<Rightarrow> TxnId \<Rightarrow> ProposerManager" where
  "TxnSubmissionAbortReceived pm sender txnId =
     (case proposers pm txnId of
        Some proposer \<Rightarrow> pm\<lparr>calls := calls pm @ [Proposer_Abort txnId]\<rparr>
      | None \<Rightarrow> pm)"

definition TxnFinished :: "ProposerManager \<Rightarrow> TxnId \<Rightarrow> ProposerManager" where
  "TxnFinished pm txnId = pm\<lparr>proposers := (proposers pm)(txnId := None)\<rparr>"

text \<open>
  \<open>FinishProposers\<close>: \<open>FinishProposing\<close> is a method of \<open>proposal\<close>, outside these sources;
  the list of RM ids it returns is given by the parameter.
\<close>

fun FinishProposers_loop :: "ProposerManager \<Rightarrow> TxnId \<Rightarrow> RMId list \<Rightarrow> ProposerManager" where
  "FinishProposers_loop pm txnId [] = pm"
| "FinishProposers_loop pm txnId (rmId # abortInstances) =
     (let instId = instanceId txnId rmId
      in case proposals pm instId of
           Some prop \<Rightarrow>
             FinishProposers_loop
               (pm\<lparr>proposals := (proposals pm)(instId := None),
                   calls := calls pm @ [Proposal_FinishProposing instId]\<rparr>)
               txnId abortInstances
         | None \<Rightarrow> FinishProposers_loop pm txnId abortInstances)"

definition FinishProposers ::
  "(proposal \<Rightarrow> RMId list) \<Rightarrow> ProposerManager \<Rightarrow> TxnId \<Rightarrow> ProposerManager" where
  "FinishProposers FinishProposing pm txnId =
     (let instId = instanceId txnId (RMId pm)
      in case proposals pm instId of
           Some prop \<Rightarrow>
             FinishProposers_loop
               (pm\<lparr>proposals := (proposals pm)(instId := None),
                   calls := calls pm @ [Proposal_FinishProposing instId]\<rparr>)
               txnId (FinishProposing prop)
         | None \<Rightarrow> pm)"

text \<open>Every operation of the manager as one step; the two outside functions are parameters.\<close>

datatype pm_op =
    Op_loadFromData TxnId "byte list"
  | Op_TopologyChanged "Topology option"
  | Op_ImmigrationReceived TxnReader
  | Op_TxnReceived RMId TxnReader
  | Op_NewPaxosProposals TxnReader int "Ballot option list" "RMId list" RMId bool
  | Op_AddToPaxosProposals TxnId "Ballot option list" RMId
  | Op_OneBTxnVotesReceived RMId TxnId "32 word" "byte list"
  | Op_TwoBTxnVotesReceived RMId TxnId TxnReader TwoBTxnVotes
  | Op_TxnGloballyCompleteReceived RMId TxnId
  | Op_TxnSubmissionAbortReceived RMId TxnId
  | Op_TxnFinished TxnId
  | Op_FinishProposers TxnId

fun pm_step ::
  "(TxnId \<Rightarrow> byte list \<Rightarrow> Topology option \<Rightarrow> Proposer option) \<Rightarrow> (proposal \<Rightarrow> RMId list)
     \<Rightarrow> ProposerManager \<Rightarrow> pm_op \<Rightarrow> panic + ProposerManager" where
  "pm_step PFD FP pm (Op_loadFromData txnId data) = Inr (snd (loadFromData PFD pm txnId data))"
| "pm_step PFD FP pm (Op_TopologyChanged topo) = Inr (TopologyChanged pm topo)"
| "pm_step PFD FP pm (Op_ImmigrationReceived txn) = Inr (ImmigrationReceived pm txn)"
| "pm_step PFD FP pm (Op_TxnReceived sender txn) = TxnReceived pm sender txn"
| "pm_step PFD FP pm (Op_NewPaxosProposals txn f bs accs rmId skip) =
     Inr (NewPaxosProposals pm txn f bs accs rmId skip)"
| "pm_step PFD FP pm (Op_AddToPaxosProposals txnId bs rmId) =
     Inr (AddToPaxosProposals pm txnId bs rmId)"
| "pm_step PFD FP pm (Op_OneBTxnVotesReceived sender txnId r votes) =
     Inr (OneBTxnVotesReceived pm sender txnId r votes)"
| "pm_step PFD FP pm (Op_TwoBTxnVotesReceived sender txnId txn votes) =
     TwoBTxnVotesReceived pm sender txnId txn votes"
| "pm_step PFD FP pm (Op_TxnGloballyCompleteReceived sender txnId) =
     Inr (TxnGloballyCompleteReceived pm sender txnId)"
| "pm_step PFD FP pm (Op_TxnSubmissionAbortReceived sender txnId) =
     Inr (TxnSubmissionAbortReceived pm sender txnId)"
| "pm_step PFD FP pm (Op_TxnFinished txnId) = Inr (TxnFinished pm txnId)"
| "pm_step PFD FP pm (Op_FinishProposers txnId) = Inr (FinishProposers FP pm txnId)"

section \<open>The transaction engine\<close>

text \<open>
  Modelled from the spec: \<open>vc.VectorClockFromData\<close> is code outside these sources. The spec
  has a commit outcome carry its vector clock, so the function is modelled as building a
  clock (a non-nil pointer) from the serialised bytes and the \<open>forceDecode\<close> flag.
\<close>

datatype VectorClock = VectorClockFromData VectorClockData bool

datatype txnState =
    DetermineLocalBallots
  | AwaitLocalBallots
  | ReceiveOutcome
  | AwaitLocallyComplete
  | ReceiveCompletion

record Var_cap =
  Var_Id :: "byte list"
  WriteTxnId :: "byte list"
  Positions :: "8 word list"
  WriteTxnClock :: VectorClockData
  WritesClock :: VectorClockData

record localAction =
  action_Id :: "TxnId option"
  vUUId :: VarUUId
  ballot :: "Ballot option"
  frame :: "nat option"
  create :: "8 word list option"
  read :: "TxnId option"
  write_flag :: bool
  roll :: bool
  addSub :: bool
  delSub :: "TxnId option"
  action_outcomeClock :: "VectorClock option"
  immigrantVar :: "Var_cap option"
  writesClock :: "VectorClock option"

text \<open>
  The functions handed to \<open>exe.EnqueueFuncAsync\<close>, the closures handed to
  \<open>vd.ApplyToVar\<close> (each names the local action it captures), and what a transaction does
  that others see, in the order it does it: assignments to \<open>currentState\<close>, enqueued
  functions, \<open>ApplyToVar\<close> calls and the callbacks on \<open>stateChange\<close>.
\<close>

datatype task = preAbort_task | allTxnBallotsComplete_task | locallyComplete_task

datatype VarFn =
    ReceiveTxn_fn nat
  | preAbort_fn nat
  | ReceiveTxnOutcome_fn nat
  | TxnGloballyComplete_fn nat

datatype Effect =
    StateEntered "txnState option"
  | Enqueued task
  | ApplyToVar VarFn bool VarUUId
  | TxnBallotsComplete "Ballot option list"
  | TxnLocallyComplete_callback
  | TxnFinished_callback

text \<open>
  A \<open>Txn\<close> with its five embedded state components. \<open>pendingVote\<close>, \<open>preAborted\<close> and
  \<open>activeFramesCount\<close> are \<open>int32\<close>. \<open>exe\<close> is the executor's queue of this transaction's
  functions that have not run yet.
\<close>

record Txn =
  txn_Id :: TxnId
  writes :: "VarUUId list"
  localActions :: "localAction list"
  voter :: bool
  pendingVote :: "32 word"
  preAborted :: "32 word"
  preAbortedBool :: bool
  outcomeClock :: "VectorClock option"
  aborted :: bool
  activeFramesCount :: "32 word"
  completed :: bool
  currentState :: "txnState option"
  exe :: "task list"
  effects :: "Effect list"

definition emit :: "Effect \<Rightarrow> Txn \<Rightarrow> Txn" where
  "emit e t = t\<lparr>effects := effects t @ [e]\<rparr>"

definition EnqueueFuncAsync :: "task \<Rightarrow> Txn \<Rightarrow> Txn" where
  "EnqueueFuncAsync f t = emit (Enqueued f) (t\<lparr>exe := exe t @ [f]\<rparr>)"

definition setCurrentState :: "txnState option \<Rightarrow> Txn \<Rightarrow> Txn" where
  "setCurrentState st t = emit (StateEntered st) (t\<lparr>currentState := st\<rparr>)"

subsection \<open>nextState and the start functions\<close>

text \<open>
  \<open>nextState\<close> calls \<open>start\<close> of the state it enters. Only \<open>txnAwaitLocallyComplete.start\<close>
  does anything: it may call \<open>locallyComplete\<close>, which calls \<open>nextState\<close> again, now from
  \<open>AwaitLocallyComplete\<close>. That inner call is \<open>nextState_late\<close>; \<open>nextState\<close> is the whole
  function.
\<close>

definition nextState_late :: "Txn \<Rightarrow> panic + Txn" where
  "nextState_late t =
     (case currentState t of
        Some AwaitLocallyComplete \<Rightarrow> Inr (setCurrentState (Some ReceiveCompletion) t)
      | Some ReceiveCompletion \<Rightarrow> Inr (setCurrentState None t)
      | _ \<Rightarrow> Inl NextStateOnTerminal)"

definition locallyComplete :: "Txn \<Rightarrow> panic + Txn" where
  "locallyComplete t =
     (if currentState t = Some AwaitLocallyComplete
      then (case nextState_late t of
              Inl p \<Rightarrow> Inl p
            | Inr t1 \<Rightarrow> Inr (emit TxnLocallyComplete_callback t1))
      else Inr t)"

definition txnAwaitLocallyComplete_start :: "Txn \<Rightarrow> panic + Txn" where
  "txnAwaitLocallyComplete_start t =
     (if aborted t \<or> activeFramesCount t = 0 then locallyComplete t else Inr t)"

definition nextState :: "Txn \<Rightarrow> panic + Txn" where
  "nextState t =
     (case currentState t of
        Some DetermineLocalBallots \<Rightarrow> Inr (setCurrentState (Some AwaitLocalBallots) t)
      | Some AwaitLocalBallots \<Rightarrow> Inr (setCurrentState (Some ReceiveOutcome) t)
      | Some ReceiveOutcome \<Rightarrow>
          txnAwaitLocallyComplete_start (setCurrentState (Some AwaitLocallyComplete) t)
      | _ \<Rightarrow> nextState_late t)"

text \<open>The loops that hand one closure per local action to \<open>ApplyToVar\<close>.\<close>

definition ApplyToVar_each :: "(nat \<Rightarrow> VarFn) \<Rightarrow> bool \<Rightarrow> Txn \<Rightarrow> Txn" where
  "ApplyToVar_each f createIfMissing t =
     t\<lparr>effects := effects t @
          map (\<lambda>idx. ApplyToVar (f idx) createIfMissing (vUUId (localActions t ! idx)))
              [0 ..< length (localActions t)]\<rparr>"

definition txnDetermineLocalBallots_start :: "Txn \<Rightarrow> panic + Txn" where
  "txnDetermineLocalBallots_start t =
     (case nextState t of
        Inl p \<Rightarrow> Inl p
      | Inr t1 \<Rightarrow> Inr (ApplyToVar_each ReceiveTxn_fn True t1))"

definition Start :: "Txn \<Rightarrow> bool \<Rightarrow> panic + Txn" where
  "Start t v =
     (let t1 = t\<lparr>voter := v\<rparr>;
          t2 = (if v then t1\<lparr>pendingVote := of_nat (length (localActions t1))\<rparr> else t1);
          t3 = t2\<lparr>activeFramesCount := of_nat (length (localActions t2))\<rparr>
      in if v
         then txnDetermineLocalBallots_start (setCurrentState (Some DetermineLocalBallots) t3)
         else Inr (setCurrentState (Some ReceiveOutcome) t3))"

subsection \<open>Await local ballots\<close>

definition voteCast :: "Txn \<Rightarrow> Ballot \<Rightarrow> bool \<Rightarrow> bool \<times> Txn" where
  "voteCast t b abort =
     (let t1 = (if abort \<and> preAborted t = 0
                then EnqueueFuncAsync preAbort_task (t\<lparr>preAborted := 1\<rparr>)
                else t);
          abort1 = (abort \<or> preAborted t1 = 1);
          t2 = t1\<lparr>pendingVote := pendingVote t1 - 1\<rparr>;
          t3 = (if pendingVote t2 = 0 then EnqueueFuncAsync allTxnBallotsComplete_task t2 else t2)
      in (abort1, t3))"

text \<open>
  The three vote methods of a local action, \<open>idx\<close> its place in \<open>localActions\<close>: a vote is
  cast only while the action has no ballot.
\<close>

definition castBallot :: "Txn \<Rightarrow> nat \<Rightarrow> Ballot \<Rightarrow> bool \<Rightarrow> bool \<times> Txn" where
  "castBallot t idx b abort =
     voteCast (t\<lparr>localActions := (localActions t)[idx := (localActions t ! idx)\<lparr>ballot := Some b\<rparr>]\<rparr>)
       b abort"

definition VoteDeadlock :: "Txn \<Rightarrow> nat \<Rightarrow> VectorClockData option \<Rightarrow> Txn" where
  "VoteDeadlock t idx clock =
     (let action = localActions t ! idx
      in if ballot action = None
         then snd (castBallot t idx (NewBallot (vUUId action) AbortDeadlock clock None) True)
         else t)"

definition VoteBadRead :: "Txn \<Rightarrow> nat \<Rightarrow> VectorClockData option \<Rightarrow> TxnId \<Rightarrow> Txn" where
  "VoteBadRead t idx clock txnId =
     (let action = localActions t ! idx
      in if ballot action = None
         then snd (castBallot t idx
                     ((NewBallot (vUUId action) AbortBadRead clock None)\<lparr>BadRead := Some txnId\<rparr>)
                     True)
         else t)"

definition VoteCommit ::
  "Txn \<Rightarrow> nat \<Rightarrow> VectorClockData option \<Rightarrow> byte list option \<Rightarrow> bool \<times> Txn" where
  "VoteCommit t idx clock subs =
     (let action = localActions t ! idx
      in if ballot action = None
         then (case castBallot t idx (NewBallot (vUUId action) Commit clock subs) False of
                 (abort, t1) \<Rightarrow> (\<not> abort, t1))
         else (False, t))"

definition preAbort :: "Txn \<Rightarrow> panic + Txn" where
  "preAbort t =
     (if currentState t = Some AwaitLocalBallots \<and> \<not> preAbortedBool t
      then Inr (ApplyToVar_each preAbort_fn False (t\<lparr>preAbortedBool := True\<rparr>))
      else Inl PreAbortInWrongState)"

definition allTxnBallotsComplete :: "Txn \<Rightarrow> panic + Txn" where
  "allTxnBallotsComplete t =
     (if currentState t = Some AwaitLocalBallots
      then (case nextState t of
              Inl p \<Rightarrow> Inl p
            | Inr t1 \<Rightarrow> Inr (emit (TxnBallotsComplete (map ballot (localActions t1))) t1))
      else Inl BallotsCompletedInWrongState)"

subsection \<open>Receive outcome\<close>

text \<open>
  The loop of \<open>BallotOutcomeReceived\<close>: each local action gets the outcome clock and its
  variable is handed \<open>ReceiveTxnOutcome\<close>.
\<close>

definition stampOutcome :: "Txn \<Rightarrow> Txn" where
  "stampOutcome t =
     ApplyToVar_each ReceiveTxnOutcome_fn (\<not> voter t)
       (t\<lparr>localActions :=
             map (\<lambda>action. action\<lparr>action_outcomeClock := outcomeClock t\<rparr>) (localActions t)\<rparr>)"

definition BallotOutcomeReceived :: "Txn \<Rightarrow> Outcome \<Rightarrow> panic + Txn" where
  "BallotOutcomeReceived t outcome =
     (if outcomeClock t \<noteq> None \<or> aborted t then Inr t
      else if currentState t \<noteq> Some ReceiveOutcome then Inl OutcomeInWrongState
      else
        (let t1 = (case outcome of
                     OUTCOME_COMMIT data \<Rightarrow> t\<lparr>outcomeClock := Some (VectorClockFromData data True)\<rparr>
                   | OUTCOME_ABORT \<Rightarrow> t\<lparr>aborted := True\<rparr>)
         in case nextState t1 of
              Inl p \<Rightarrow> Inl p
            | Inr t2 \<Rightarrow>
                if preAbortedBool t2
                then (if \<not> aborted t2 then Inl PreAbortedButCommit else Inr t2)
                else Inr (stampOutcome t2)))"

subsection \<open>Await locally complete, receive completion\<close>

definition LocallyComplete :: "Txn \<Rightarrow> panic + Txn" where
  "LocallyComplete t =
     (let result = activeFramesCount t - 1;
          t1 = t\<lparr>activeFramesCount := result\<rparr>
      in if result = 0 then Inr (EnqueueFuncAsync locallyComplete_task t1)
         else if sint result < 0 then Inl ActiveFramesCountNegative
         else Inr t1)"

definition maybeFinish :: "Txn \<Rightarrow> panic + Txn" where
  "maybeFinish t =
     (if currentState t = Some ReceiveCompletion \<and> completed t
      then (case nextState t of
              Inl p \<Rightarrow> Inl p
            | Inr t1 \<Rightarrow> Inr (emit TxnFinished_callback t1))
      else Inr t)"

definition CompletionReceived :: "Txn \<Rightarrow> panic + Txn" where
  "CompletionReceived t =
     (if completed t then Inr t
      else if currentState t \<noteq> Some ReceiveCompletion then Inl CompletionInWrongState
      else (case maybeFinish (t\<lparr>completed := True\<rparr>) of
              Inl p \<Rightarrow> Inl p
            | Inr t1 \<Rightarrow>
                if aborted t1 then Inr t1
                else Inr (t1\<lparr>effects := effects t1 @
                            map (\<lambda>idx. ApplyToVar (TxnGloballyComplete_fn idx) False
                                         (vUUId (localActions t1 ! idx)))
                                (filter (\<lambda>idx. frame (localActions t1 ! idx) \<noteq> None)
                                   [0 ..< length (localActions t1)])\<rparr>)))"

subsection \<open>Immigration\<close>

definition immigrantAction :: "Var_cap \<Rightarrow> localAction" where
  "immigrantAction varCap =
     \<lparr>action_Id = Some (WriteTxnId varCap),
      vUUId = Var_Id varCap,
      ballot = None,
      frame = None,
      create = Some (Positions varCap),
      read = None,
      write_flag = True,
      roll = False,
      addSub = False,
      delSub = None,
      action_outcomeClock = Some (VectorClockFromData (WriteTxnClock varCap) False),
      immigrantVar = Some varCap,
      writesClock = Some (VectorClockFromData (WritesClock varCap) False)\<rparr>"

text \<open>The \<open>Txn\<close> literal of \<open>ImmigrationTxnFromCap\<close> after its first loop; every other field is
  the zero value.\<close>

definition immigrantTxn :: "TxnReader \<Rightarrow> Var_cap list \<Rightarrow> Txn" where
  "immigrantTxn reader varCaps =
     \<lparr>txn_Id = Id_reader reader,
      writes = map Var_Id varCaps,
      localActions = map immigrantAction varCaps,
      voter = False,
      pendingVote = 0,
      preAborted = 0,
      preAbortedBool = False,
      outcomeClock = None,
      aborted = False,
      activeFramesCount = 0,
      completed = False,
      currentState = None,
      exe = [],
      effects = []\<rparr>"


subsection \<open>The transaction as a machine\<close>

text \<open>
  What can happen to a started transaction, one method call at a time: a variable casts the
  vote of a local action or records the frame of one, the executor runs the next enqueued
  function, an outcome or a completion arrives, a frame reports local completion. A call
  that names no local action does nothing.
\<close>

datatype txn_op =
    Op_VoteDeadlock nat "VectorClockData option"
  | Op_VoteBadRead nat "VectorClockData option" TxnId
  | Op_VoteCommit nat "VectorClockData option" "byte list option"
  | Op_setFrame nat nat
  | Op_exe_run
  | Op_BallotOutcomeReceived Outcome
  | Op_LocallyComplete
  | Op_CompletionReceived

fun run_task :: "Txn \<Rightarrow> task \<Rightarrow> panic + Txn" where
  "run_task t preAbort_task = preAbort t"
| "run_task t allTxnBallotsComplete_task = allTxnBallotsComplete t"
| "run_task t locallyComplete_task = locallyComplete t"

fun txn_step :: "Txn \<Rightarrow> txn_op \<Rightarrow> panic + Txn" where
  "txn_step t (Op_VoteDeadlock idx clock) =
     (if idx < length (localActions t) then Inr (VoteDeadlock t idx clock) else Inr t)"
| "txn_step t (Op_VoteBadRead idx clock txnId) =
     (if idx < length (localActions t) then Inr (VoteBadRead t idx clock txnId) else Inr t)"
| "txn_step t (Op_VoteCommit idx clock subs) =
     (if idx < length (localActions t) then Inr (snd (VoteCommit t idx clock subs)) else Inr t)"
| "txn_step t (Op_setFrame idx f) =
     (if idx < length (localActions t)
      then Inr (t\<lparr>localActions := (localActions t)[idx := (localActions t ! idx)\<lparr>frame := Some f\<rparr>]\<rparr>)
      else Inr t)"
| "txn_step t Op_exe_run =
     (case exe t of
        [] \<Rightarrow> Inr t
      | f # fs \<Rightarrow> run_task (t\<lparr>exe := fs\<rparr>) f)"
| "txn_step t (Op_BallotOutcomeReceived outcome) = BallotOutcomeReceived t outcome"
| "txn_step t Op_LocallyComplete = LocallyComplete t"
| "txn_step t Op_CompletionReceived = CompletionReceived t"

fun txn_run :: "Txn \<Rightarrow> txn_op list \<Rightarrow> panic + Txn" where
  "txn_run t [] = Inr t"
| "txn_run t (x # xs) =
     (case txn_step t x of
        Inl p \<Rightarrow> Inl p
      | Inr t1 \<Rightarrow> txn_run t1 xs)"

section \<open>What the specification says, for comparison with the code\<close>

text \<open>
  The abort ballots of an allocation: one \<open>AbortDeadlock\<close> ballot per action index, in the
  order of the allocation, each for the variable of the action at that index.
\<close>

definition abortBallots :: "TxnReader \<Rightarrow> Allocation \<Rightarrow> Ballot option list" where
  "abortBallots txn alloc =
     map (\<lambda>actionIndex.
            Some \<lparr>VarUUId = VarId (Actions_At txn (unat actionIndex)), Vote = AbortDeadlock,
                  Clock = None, BadRead = None, Subscriptions = None\<rparr>)
         (ActionIndices alloc)"

text \<open>
  When a transaction is accepted, in the words of the claim: the topology is unknown, or the
  transaction's topology version is the current or the next one, the sender has not been
  removed, and this RM's allocation is active with the manager's boot count.
\<close>

definition accept_as_claimed :: "ProposerManager \<Rightarrow> RMId \<Rightarrow> TxnReader \<Rightarrow> bool" where
  "accept_as_claimed pm sender txn =
     (case topology pm of
        None \<Rightarrow> True
      | Some topo \<Rightarrow>
          (TopologyVersion (Txn_reader txn) = Version topo \<or>
           (case Next topo of
              None \<Rightarrow> False
            | Some next \<Rightarrow> TopologyVersion (Txn_reader txn) = Version next)) \<and>
          sender \<notin> RMsRemoved topo \<and>
          (case AllocForRMId (Txn_reader txn) (RMId pm) of
             None \<Rightarrow> False
           | Some alloc \<Rightarrow> Active alloc = BootCount pm))"

text \<open>
  The same with the one change the code forces: while a next topology is known, only its
  version is accepted; the current version is accepted only when there is no next topology.
\<close>

definition accept_as_amended :: "ProposerManager \<Rightarrow> RMId \<Rightarrow> TxnReader \<Rightarrow> bool" where
  "accept_as_amended pm sender txn =
     (case topology pm of
        None \<Rightarrow> True
      | Some topo \<Rightarrow>
          TopologyVersion (Txn_reader txn) =
            (case Next topo of None \<Rightarrow> Version topo | Some next \<Rightarrow> Version next) \<and>
          sender \<notin> RMsRemoved topo \<and>
          (case AllocForRMId (Txn_reader txn) (RMId pm) of
             None \<Rightarrow> False
           | Some alloc \<Rightarrow> Active alloc = BootCount pm))"

text \<open>
  One step of the manager keeps every entry of its two maps: an entry is the same
  afterwards or has been deleted, and no proposer (proposal) is started under a key that had
  an entry.
\<close>

definition keeps_entries :: "ProposerManager \<Rightarrow> ProposerManager \<Rightarrow> bool" where
  "keeps_entries pm pm' \<longleftrightarrow>
     (\<forall>k p. proposers pm k = Some p \<longrightarrow> proposers pm' k = Some p \<or> proposers pm' k = None) \<and>
     (\<forall>i p. proposals pm i = Some p \<longrightarrow> proposals pm' i = Some p \<or> proposals pm' i = None) \<and>
     take (length (calls pm)) (calls pm') = calls pm \<and>
     (\<forall>k. Proposer_Start k \<in> set (drop (length (calls pm)) (calls pm')) \<longrightarrow>
          proposers pm k = None) \<and>
     (\<forall>i. Proposal_Start i \<in> set (drop (length (calls pm)) (calls pm')) \<longrightarrow>
          proposals pm i = None)"

section \<open>Concrete inputs\<close>

text \<open>
  RM 1 with boot count 7 and the transaction of the specification's scenarios: one
  allocation for RM 1, active at boot count 7, with the single action 0.
\<close>

definition T1 :: TxnId where
  "T1 = [0, 0, 0, 0, 0, 0, 0, 0, 0, 0, 0, 0, 0, 0, 0, 0, 0, 0, 0, 1]"

definition ex_actions :: "nat \<Rightarrow> Action" where
  "ex_actions i = \<lparr>VarId = [86, 49]\<rparr>"

definition ex_alloc :: Allocation where
  "ex_alloc = \<lparr>RmId = 1, Active = 7, ActionIndices = [0]\<rparr>"

definition ex_txn :: TxnReader where
  "ex_txn = \<lparr>Id_reader = T1,
             Txn_reader = \<lparr>TopologyVersion = 3, FInc = 1, Allocations = [ex_alloc]\<rparr>,
             Actions_At = ex_actions\<rparr>"

definition ex_txn_passive :: TxnReader where
  "ex_txn_passive =
     \<lparr>Id_reader = T1,
      Txn_reader = \<lparr>TopologyVersion = 3, FInc = 1,
                    Allocations = [\<lparr>RmId = 1, Active = 0, ActionIndices = []\<rparr>]\<rparr>,
      Actions_At = ex_actions\<rparr>"

definition ex_txn_elsewhere :: TxnReader where
  "ex_txn_elsewhere =
     \<lparr>Id_reader = T1,
      Txn_reader = \<lparr>TopologyVersion = 3, FInc = 1,
                    Allocations = [\<lparr>RmId = 2, Active = 7, ActionIndices = [0]\<rparr>]\<rparr>,
      Actions_At = ex_actions\<rparr>"

definition ex_cap_four :: msgs_Txn where
  "ex_cap_four =
     \<lparr>TopologyVersion = 3, FInc = 2,
      Allocations = [\<lparr>RmId = 1, Active = 7, ActionIndices = [0]\<rparr>,
                     \<lparr>RmId = 2, Active = 7, ActionIndices = [1]\<rparr>,
                     \<lparr>RmId = 5, Active = 0, ActionIndices = []\<rparr>,
                     \<lparr>RmId = 4, Active = 0, ActionIndices = []\<rparr>]\<rparr>"

definition ex_cap_fInc0 :: msgs_Txn where
  "ex_cap_fInc0 = \<lparr>TopologyVersion = 3, FInc = 0, Allocations = [ex_alloc]\<rparr>"

definition ex_pm :: ProposerManager where
  "ex_pm = \<lparr>RMId = 1, BootCount = 7, proposals = Map.empty, proposers = Map.empty,
            topology = Some (Topology 3 None {}), calls = []\<rparr>"

definition ex_pm_next :: ProposerManager where
  "ex_pm_next = \<lparr>RMId = 1, BootCount = 7, proposals = Map.empty, proposers = Map.empty,
                 topology = Some (Topology 3 (Some (Topology 4 None {})) {}), calls = []\<rparr>"

text \<open>The same managers already holding a proposal for \<open>(T1, RM 1)\<close> and no proposer.\<close>

definition ex_pm_busy :: ProposerManager where
  "ex_pm_busy =
     ex_pm_next\<lparr>proposals := [instanceId T1 1 \<mapsto> NewProposal ex_txn 1 [] 1 [1] False]\<rparr>"

definition ex_pm_busy_skip :: ProposerManager where
  "ex_pm_busy_skip =
     ex_pm\<lparr>proposals :=
              [instanceId T1 1 \<mapsto> NewProposal ex_txn 1 (abortBallots ex_txn ex_alloc) 1 [1] True]\<rparr>"

text \<open>Stand-ins for the two outside functions: nothing decodes, no abort instances.\<close>

definition ex_ProposerFromData :: "TxnId \<Rightarrow> byte list \<Rightarrow> Topology option \<Rightarrow> Proposer option" where
  "ex_ProposerFromData txnId data topo = None"

definition ex_FinishProposing :: "proposal \<Rightarrow> RMId list" where
  "ex_FinishProposing p = []"

section \<open>Observing a transaction\<close>

text \<open>
  The ballot lists handed to \<open>TxnBallotsComplete\<close> so far, the number of local actions that
  have cast their vote, and a \<open>Txn\<close> as \<open>TxnFromReader\<close> leaves it: no ballots, every state
  component at its zero value, nothing enqueued and nothing done.
\<close>

fun ballotsCompleted :: "Effect list \<Rightarrow> Ballot option list list" where
  "ballotsCompleted [] = []"
| "ballotsCompleted (TxnBallotsComplete bs # es) = bs # ballotsCompleted es"
| "ballotsCompleted (e # es) = ballotsCompleted es"

definition votesCast :: "Txn \<Rightarrow> nat" where
  "votesCast t = length (filter (\<lambda>action. ballot action \<noteq> None) (localActions t))"

definition newTxn :: "Txn \<Rightarrow> bool" where
  "newTxn t \<longleftrightarrow>
     list_all (\<lambda>action. ballot action = None) (localActions t) \<and>
     pendingVote t = 0 \<and> preAborted t = 0 \<and> \<not> preAbortedBool t \<and> outcomeClock t = None \<and>
     \<not> aborted t \<and> activeFramesCount t = 0 \<and> \<not> completed t \<and> currentState t = None \<and>
     exe t = [] \<and> effects t = []"

text \<open>
  What holds of a started voter with \<open>n\<close> local actions at every moment: the counter is
  \<open>n\<close> less the votes cast, \<open>allTxnBallotsComplete\<close> has been enqueued once if all \<open>n\<close> votes
  are cast and never otherwise, and the transaction is in \<open>AwaitLocalBallots\<close> with no
  ballots handed over, or beyond it with exactly the ballots of its local actions handed
  over once.
\<close>

definition voter_inv :: "nat \<Rightarrow> Txn \<Rightarrow> bool" where
  "voter_inv n t \<longleftrightarrow>
     length (localActions t) = n \<and>
     pendingVote t = of_nat n - of_nat (votesCast t) \<and>
     count_list (effects t) (Enqueued allTxnBallotsComplete_task) =
       (if votesCast t = n \<and> 0 < n then 1 else 0) \<and>
     (allTxnBallotsComplete_task \<in> set (exe t) \<longrightarrow> votesCast t = n) \<and>
     currentState t \<noteq> Some DetermineLocalBallots \<and>
     (currentState t = Some AwaitLocalBallots \<longrightarrow> ballotsCompleted (effects t) = []) \<and>
     (currentState t \<noteq> Some AwaitLocalBallots \<longrightarrow>
        votesCast t = n \<and> ballotsCompleted (effects t) = [map ballot (localActions t)])"


section \<open>Concrete transactions\<close>

text \<open>
  A voter with two local actions, for the variables \<open>[1]\<close> and \<open>[2]\<close>: as constructed, after
  \<open>Start(true)\<close>, after both have voted to commit and the ballots have been handed over,
  after both have voted \<open>AbortDeadlock\<close> and \<open>preAbort\<close> and the hand-over have run, and
  after the outcome has then arrived.
\<close>

definition ex_action :: "byte \<Rightarrow> localAction" where
  "ex_action v =
     \<lparr>action_Id = Some T1, vUUId = [v], ballot = None, frame = None, create = None,
      read = None, write_flag = True, roll = False, addSub = False, delSub = None,
      action_outcomeClock = None, immigrantVar = None, writesClock = None\<rparr>"

definition ex_fresh :: Txn where
  "ex_fresh =
     \<lparr>txn_Id = T1, writes = [[1], [2]], localActions = [ex_action 1, ex_action 2],
      voter = False, pendingVote = 0, preAborted = 0, preAbortedBool = False,
      outcomeClock = None, aborted = False, activeFramesCount = 0, completed = False,
      currentState = None, exe = [], effects = []\<rparr>"

definition ex_started :: Txn where
  "ex_started =
     ex_fresh\<lparr>voter := True, pendingVote := 2, activeFramesCount := 2,
              currentState := Some AwaitLocalBallots,
              effects := [StateEntered (Some DetermineLocalBallots),
                          StateEntered (Some AwaitLocalBallots),
                          ApplyToVar (ReceiveTxn_fn 0) True [1],
                          ApplyToVar (ReceiveTxn_fn 1) True [2]]\<rparr>"

definition ex_voted :: Txn where
  "ex_voted =
     ex_started\<lparr>localActions :=
                  [(ex_action 1)\<lparr>ballot := Some (NewBallot [1] Commit None None)\<rparr>,
                   (ex_action 2)\<lparr>ballot := Some (NewBallot [2] Commit None None)\<rparr>],
                pendingVote := 0,
                currentState := Some ReceiveOutcome,
                effects := effects ex_started @
                  [Enqueued allTxnBallotsComplete_task,
                   StateEntered (Some ReceiveOutcome),
                   TxnBallotsComplete [Some (NewBallot [1] Commit None None),
                                       Some (NewBallot [2] Commit None None)]]\<rparr>"

definition ex_committed :: Txn where
  "ex_committed =
     ex_voted\<lparr>localActions :=
                [(ex_action 1)\<lparr>ballot := Some (NewBallot [1] Commit None None),
                               action_outcomeClock := Some (VectorClockFromData [9] True)\<rparr>,
                 (ex_action 2)\<lparr>ballot := Some (NewBallot [2] Commit None None),
                               action_outcomeClock := Some (VectorClockFromData [9] True)\<rparr>],
              outcomeClock := Some (VectorClockFromData [9] True),
              currentState := Some AwaitLocallyComplete,
              effects := effects ex_voted @
                [StateEntered (Some AwaitLocallyComplete),
                 ApplyToVar (ReceiveTxnOutcome_fn 0) False [1],
                 ApplyToVar (ReceiveTxnOutcome_fn 1) False [2]]\<rparr>"

definition ex_preaborted :: Txn where
  "ex_preaborted =
     ex_started\<lparr>localActions :=
                  [(ex_action 1)\<lparr>ballot := Some (NewBallot [1] AbortDeadlock None None)\<rparr>,
                   (ex_action 2)\<lparr>ballot := Some (NewBallot [2] AbortDeadlock None None)\<rparr>],
                pendingVote := 0,
                preAborted := 1,
                preAbortedBool := True,
                currentState := Some ReceiveOutcome,
                effects := effects ex_started @
                  [Enqueued preAbort_task,
                   Enqueued allTxnBallotsComplete_task,
                   ApplyToVar (preAbort_fn 0) False [1],
                   ApplyToVar (preAbort_fn 1) False [2],
                   StateEntered (Some ReceiveOutcome),
                   TxnBallotsComplete [Some (NewBallot [1] AbortDeadlock None None),
                                       Some (NewBallot [2] AbortDeadlock None None)]]\<rparr>"

definition ex_aborted :: Txn where
  "ex_aborted =
     ex_preaborted\<lparr>aborted := True,
                   currentState := Some ReceiveCompletion,
                   effects := effects ex_preaborted @
                     [StateEntered (Some AwaitLocallyComplete),
                      StateEntered (Some ReceiveCompletion),
                      TxnLocallyComplete_callback]\<rparr>"

text \<open>Three immigrant variables with the write clocks \<open>[11]\<close>, \<open>[12]\<close> and \<open>[13]\<close>.\<close>

definition ex_varCaps :: "Var_cap list" where
  "ex_varCaps =
     [\<lparr>Var_Id = [1], WriteTxnId = [7], Positions = [], WriteTxnClock = [11], WritesClock = [21]\<rparr>,
      \<lparr>Var_Id = [2], WriteTxnId = [8], Positions = [], WriteTxnClock = [12], WritesClock = [22]\<rparr>,
      \<lparr>Var_Id = [3], WriteTxnId = [9], Positions = [], WriteTxnClock = [13], WritesClock = [23]\<rparr>]"

definition ex_immigrant :: Txn where
  "ex_immigrant =
     (immigrantTxn ex_txn ex_varCaps)
       \<lparr>activeFramesCount := 3,
        currentState := Some AwaitLocallyComplete,
        effects := [StateEntered (Some ReceiveOutcome),
                    StateEntered (Some AwaitLocallyComplete),
                    ApplyToVar (ReceiveTxnOutcome_fn 0) True [1],
                    ApplyToVar (ReceiveTxnOutcome_fn 1) True [2],
                    ApplyToVar (ReceiveTxnOutcome_fn 2) True [3]]\<rparr>"

section \<open>Theorems\<close>

subsection \<open>Loops\<close>

lemma AllocForRMId_loop_None:
  "AllocForRMId_loop allocs rmId = None \<longleftrightarrow> rmId \<notin> RmId ` set allocs"
  by (induction allocs) auto

lemma GetAcceptors_loop_take:
  "idx \<le> length acceptors \<Longrightarrow> length acceptors = nat twoFInc \<Longrightarrow>
   take idx acceptors = map RmId (take idx allocations) \<Longrightarrow>
   GetAcceptors_loop allocations twoFInc idx acceptors = (idx', acceptors') \<Longrightarrow>
   take idx' acceptors' = take (nat twoFInc) (map RmId allocations)"
proof (induction allocations twoFInc idx acceptors rule: GetAcceptors_loop.induct)
  case (1 allocations twoFInc idx acceptors)
  show ?case
  proof (cases "idx < length allocations \<and> int idx < twoFInc")
    case True
    let ?acc = "acceptors[idx := RmId (allocations ! idx)]"
    from True 1(3) have lt: "idx < length acceptors" by linarith
    have step: "GetAcceptors_loop allocations twoFInc (Suc idx) ?acc = (idx', acceptors')"
      using 1(5) True by (subst (asm) GetAcceptors_loop.simps) simp
    have "take (Suc idx) ?acc = take idx acceptors @ [RmId (allocations ! idx)]"
      using lt by (simp add: take_Suc_conv_app_nth)
    also have "\<dots> = map RmId (take (Suc idx) allocations)"
      using True 1(4) by (simp add: take_Suc_conv_app_nth)
    finally have inv: "take (Suc idx) ?acc = map RmId (take (Suc idx) allocations)" .
    show ?thesis
      by (rule "1.IH" [OF True _ _ inv step]) (use lt 1(3) in simp_all)
  next
    case False
    have res: "idx' = idx" "acceptors' = acceptors"
      using 1(5) False by (subst (asm) GetAcceptors_loop.simps, simp)+
    from False consider "length allocations \<le> idx" | "twoFInc \<le> int idx" by linarith
    then show ?thesis
    proof cases
      case 1
      with "1.prems" res show ?thesis by (simp add: take_map)
    next
      case 2
      with "1.prems" have "idx = nat twoFInc" by simp
      with "1.prems" res show ?thesis by (simp add: take_map)
    qed
  qed
qed

lemma GetAcceptorsFromTxn_eq:
  "GetAcceptorsFromTxn txnCap =
     (if FInc txnCap = 0 then Inl MakesliceLenOutOfRange
      else Inr (take (2 * FInc txnCap - 1) (map RmId (Allocations txnCap))))"
proof (cases "FInc txnCap = 0")
  case True
  then show ?thesis by (simp add: GetAcceptorsFromTxn_def)
next
  case False
  let ?two = "int (FInc txnCap) + int (FInc txnCap) - 1"
  obtain idx acceptors where
    l: "GetAcceptors_loop (Allocations txnCap) ?two 0 (replicate (nat ?two) 0) = (idx, acceptors)"
    by (cases "GetAcceptors_loop (Allocations txnCap) ?two 0 (replicate (nat ?two) 0)")
  have "take idx acceptors = take (nat ?two) (map RmId (Allocations txnCap))"
    by (rule GetAcceptors_loop_take [OF _ _ _ l]) simp_all
  moreover have "nat ?two = 2 * FInc txnCap - 1" using False by linarith
  ultimately show ?thesis
    using False l by (simp add: GetAcceptorsFromTxn_def Let_def)
qed

lemma MakeAbortBallots_loop_map:
  "length bs = length actionIndices \<Longrightarrow> idx \<le> length actionIndices \<Longrightarrow>
   take idx bs =
     map (\<lambda>i. Some (NewBallot (VarId (Actions_At txn (unat i))) AbortDeadlock None None))
       (take idx actionIndices) \<Longrightarrow>
   MakeAbortBallots_loop txn actionIndices idx bs =
     map (\<lambda>i. Some (NewBallot (VarId (Actions_At txn (unat i))) AbortDeadlock None None))
       actionIndices"
proof (induction txn actionIndices idx bs rule: MakeAbortBallots_loop.induct)
  case (1 txn actionIndices idx bs)
  show ?case
  proof (cases "idx < length actionIndices")
    case True
    let ?b = "Some (NewBallot (VarId (Actions_At txn (unat (actionIndices ! idx))))
                      AbortDeadlock None None)"
    have "take (Suc idx) (bs[idx := ?b]) = take idx bs @ [?b]"
      using True "1.prems"(1) by (simp add: take_Suc_conv_app_nth)
    then have inv: "take (Suc idx) (bs[idx := ?b]) =
        map (\<lambda>i. Some (NewBallot (VarId (Actions_At txn (unat i))) AbortDeadlock None None))
          (take (Suc idx) actionIndices)"
      using True "1.prems"(3) by (simp add: take_Suc_conv_app_nth)
    have "MakeAbortBallots_loop txn actionIndices idx bs =
          MakeAbortBallots_loop txn actionIndices (Suc idx) (bs[idx := ?b])"
      using True by (subst MakeAbortBallots_loop.simps) simp
    also have "\<dots> =
        map (\<lambda>i. Some (NewBallot (VarId (Actions_At txn (unat i))) AbortDeadlock None None))
          actionIndices"
      by (rule "1.IH" [OF True _ _ inv]) (use True "1.prems"(1) in simp_all)
    finally show ?thesis .
  next
    case False
    with "1.prems" have "idx = length actionIndices" by simp
    with "1.prems" False show ?thesis
      by (subst MakeAbortBallots_loop.simps) simp
  qed
qed

lemma MakeAbortBallots_Some:
  "MakeAbortBallots txn (Some alloc) = Inr (abortBallots txn alloc)"
  by (simp add: MakeAbortBallots_def abortBallots_def MakeAbortBallots_loop_map NewBallot_def)

lemma AllocForRMId_None:
  "AllocForRMId txn rmId = None \<longleftrightarrow> rmId \<notin> RmId ` set (Allocations txn)"
  by (simp add: AllocForRMId_def AllocForRMId_loop_None)

lemma TxnReceived_loop_iff:
  "TxnReceived_loop allocs rmId bootCount \<longleftrightarrow>
     (\<exists>alloc. AllocForRMId_loop allocs rmId = Some alloc \<and> Active alloc = bootCount)"
  by (induction allocs) auto

lemma TxnReceived_accept_iff:
  "TxnReceived_accept pm sender txn \<longleftrightarrow> accept_as_amended pm sender txn"
  by (auto simp add: TxnReceived_accept_def accept_as_amended_def TxnReceived_loop_iff
      AllocForRMId_def Let_def split: option.splits)

lemma PutUint32_inj:
  assumes "PutUint32 a = PutUint32 b"
  shows "a = b"
proof (rule bit_word_eqI)
  fix n assume n: "n < LENGTH(32)"
  have byte: "bit a (k + m) = bit b (k + m)"
    if "(ucast (drop_bit k a) :: 8 word) = ucast (drop_bit k b)" and "m < 8" for k m
  proof -
    have "bit (ucast (drop_bit k a) :: 8 word) m = bit (ucast (drop_bit k b) :: 8 word) m"
      using that(1) by simp
    then show ?thesis using that(2) by (simp add: bit_ucast_iff bit_drop_bit_eq)
  qed
  from assms have e:
    "(ucast (drop_bit 24 a) :: 8 word) = ucast (drop_bit 24 b)"
    "(ucast (drop_bit 16 a) :: 8 word) = ucast (drop_bit 16 b)"
    "(ucast (drop_bit 8 a) :: 8 word) = ucast (drop_bit 8 b)"
    "(ucast (drop_bit 0 a) :: 8 word) = ucast (drop_bit 0 b)"
    by (simp_all add: PutUint32_def)
  from n consider "n < 8" | "8 \<le> n" "n < 16" | "16 \<le> n" "n < 24" | "24 \<le> n" "n < 32"
    by fastforce
  then show "bit a n = bit b n"
  proof cases
    case 1 then show ?thesis using byte [OF e(4), of n] by simp
  next
    case 2 then show ?thesis using byte [OF e(3), of "n - 8"] by simp
  next
    case 3 then show ?thesis using byte [OF e(2), of "n - 16"] by simp
  next
    case 4 then show ?thesis using byte [OF e(1), of "n - 24"] by simp
  qed
qed

lemma instanceId_inj:
  "length t = length t' \<Longrightarrow> instanceId t r = instanceId t' r' \<longleftrightarrow> t = t' \<and> r = r'"
  by (auto simp add: instanceId_def dest: PutUint32_inj)

lemmas ex_defs =
  T1_def ex_actions_def ex_alloc_def ex_txn_def ex_txn_passive_def ex_txn_elsewhere_def
  ex_cap_four_def ex_cap_fInc0_def ex_pm_def ex_pm_next_def ex_pm_busy_def ex_pm_busy_skip_def
  ex_ProposerFromData_def ex_FinishProposing_def

subsection \<open>The acceptors of a transaction\<close>




subsection \<open>A transaction arrives\<close>

text \<open>
  Claim C1, amended. When no proposer exists for the transaction's id, \<open>TxnReceived\<close>
  creates an \<open>ActiveVoter\<close> proposer exactly when the stored topology is nil, or: the
  transaction's topology version is that of the next topology if there is one and that of
  the current topology otherwise, the sender is not among the removed RMs, and this RM's
  first allocation has the manager's boot count as its active boot count. Then the manager
  installs and starts that proposer and does nothing else. In every other case a call that
  returns leaves an \<open>ActiveLearner\<close> proposer.
\<close>

theorem TxnReceived_accepts_iff:
  "proposers pm (Id_reader txn) = None \<Longrightarrow>
     ((\<exists>pm'. TxnReceived pm sender txn = Inr pm' \<and>
         map_option pr_mode (proposers pm' (Id_reader txn)) = Some ProposerActiveVoter)
        \<longleftrightarrow> accept_as_amended pm sender txn) \<and>
     (accept_as_amended pm sender txn \<longrightarrow>
        TxnReceived pm sender txn =
          Inr (pm\<lparr>proposers := (proposers pm)(Id_reader txn \<mapsto>
                     \<lparr>pr_txn = txn, pr_mode = ProposerActiveVoter, pr_topology = topology pm\<rparr>),
                  calls := calls pm @ [Proposer_Start (Id_reader txn)]\<rparr>)) \<and>
     (\<not> accept_as_amended pm sender txn \<longrightarrow>
        (\<forall>pm'. TxnReceived pm sender txn = Inr pm' \<longrightarrow>
           map_option pr_mode (proposers pm' (Id_reader txn)) = Some ProposerActiveLearner))"
  by (auto simp add: TxnReceived_def TxnReceived_accept_iff installProposer_def NewProposer_def
      NewPaxosProposals_def Let_def split: sum.splits option.splits)

theorem TxnReceived_accepts_iff_witness:
  "proposers ex_pm (Id_reader ex_txn) = None \<and> accept_as_amended ex_pm 2 ex_txn \<and>
   TxnReceived ex_pm 2 ex_txn =
     Inr (ex_pm\<lparr>proposers := [T1 \<mapsto>
                    \<lparr>pr_txn = ex_txn, pr_mode = ProposerActiveVoter,
                     pr_topology = Some (Topology 3 None {})\<rparr>],
                calls := [Proposer_Start T1]\<rparr>) \<and>
   proposers ex_pm_next (Id_reader ex_txn) = None \<and> \<not> accept_as_amended ex_pm_next 2 ex_txn"
proof -
  have a: "proposers ex_pm (Id_reader ex_txn) = None"
    by (simp add: ex_pm_def)
  have b: "accept_as_amended ex_pm 2 ex_txn"
    by (simp add: accept_as_amended_def AllocForRMId_def ex_defs)
  have c: "\<not> accept_as_amended ex_pm_next 2 ex_txn"
    by (simp add: accept_as_amended_def AllocForRMId_def ex_defs)
  from TxnReceived_accepts_iff [OF a, of 2] b c show ?thesis
    by (simp add: ex_pm_def ex_pm_next_def ex_txn_def)
qed

text \<open>
  The claim as it stands fails while a next topology is known: a transaction with the
  current version 3 (next version 4), from a sender that has not been removed, for an
  allocation active at the manager's boot count, is not accepted; the manager starts the
  abort proposal and an \<open>ActiveLearner\<close>.
\<close>

theorem TxnReceived_current_version_rejected:
  "proposers ex_pm_next (Id_reader ex_txn) = None \<and>
   accept_as_claimed ex_pm_next 2 ex_txn \<and>
   \<not> TxnReceived_accept ex_pm_next 2 ex_txn \<and>
   TxnReceived ex_pm_next 2 ex_txn =
     Inr (installProposer
            (NewPaxosProposals ex_pm_next ex_txn 1 (abortBallots ex_txn ex_alloc) [1] 1 True)
            ex_txn ProposerActiveLearner)"
  by (simp add: TxnReceived_def TxnReceived_accept_def accept_as_claimed_def AllocForRMId_def
      GetAcceptorsFromTxn_eq MakeAbortBallots_Some Let_def ex_defs)




subsection \<open>A 2B arrives\<close>




text \<open>
  Claim C10. In the outcome branch of \<open>TwoBTxnVotesReceived\<close> with no live proposer the
  result of \<open>AllocForRMId\<close> is dereferenced unchecked, and \<open>AllocForRMId\<close> returns nil exactly
  when this RM is in none of the transaction's allocations: the call faults with a nil
  pointer dereference exactly for such a transaction.
\<close>

theorem TwoB_outcome_nil_alloc:
  "proposers pm txnId = None \<Longrightarrow>
    (AllocForRMId (Txn_reader txn) (RMId pm) = None \<longleftrightarrow>
       RMId pm \<notin> RmId ` set (Allocations (Txn_reader txn))) \<and>
    (TwoBTxnVotesReceived pm sender txnId txn (TWOBTXNVOTES_OUTCOME outcome) =
       Inl NilPointerDereference
       \<longleftrightarrow> RMId pm \<notin> RmId ` set (Allocations (Txn_reader txn)))"
  by (auto simp add: TwoBTxnVotesReceived_def AllocForRMId_None [symmetric] GetAcceptorsFromTxn_eq
      MakeAbortBallots_Some Let_def split: option.splits Outcome.splits)

theorem TwoB_outcome_nil_alloc_witness:
  "proposers ex_pm T1 = None \<and>
   RMId ex_pm \<notin> RmId ` set (Allocations (Txn_reader ex_txn_elsewhere)) \<and>
   AllocForRMId (Txn_reader ex_txn_elsewhere) (RMId ex_pm) = None \<and>
   TwoBTxnVotesReceived ex_pm 2 T1 ex_txn_elsewhere (TWOBTXNVOTES_OUTCOME OUTCOME_ABORT) =
     Inl NilPointerDereference"
proof -
  have a: "proposers ex_pm T1 = None"
    by (simp add: ex_pm_def)
  have b: "RMId ex_pm \<notin> RmId ` set (Allocations (Txn_reader ex_txn_elsewhere))"
    by (simp add: ex_pm_def ex_txn_elsewhere_def)
  from TwoB_outcome_nil_alloc [OF a, where txn = ex_txn_elsewhere and sender = 2
      and outcome = OUTCOME_ABORT] a b show ?thesis
    by simp
qed

subsection \<open>The two maps\<close>

lemma keeps_entries_refl: "keeps_entries pm pm"
  by (simp add: keeps_entries_def)

text \<open>The loop of \<open>FinishProposers\<close> only deletes proposals and only calls \<open>FinishProposing\<close>.\<close>

lemma FinishProposers_loop_keeps:
  "proposers (FinishProposers_loop pm txnId rs) = proposers pm \<and>
   (\<forall>i. proposals (FinishProposers_loop pm txnId rs) i = proposals pm i \<or>
        proposals (FinishProposers_loop pm txnId rs) i = None) \<and>
   (\<exists>new. calls (FinishProposers_loop pm txnId rs) = calls pm @ new \<and>
      (\<forall>c \<in> set new. \<exists>i. c = Proposal_FinishProposing i))"
proof (induction rs arbitrary: pm)
  case Nil
  then show ?case by simp
next
  case (Cons r rs)
  show ?case
  proof (cases "proposals pm (instanceId txnId r)")
    case None
    then show ?thesis using Cons.IH [of pm] by simp
  next
    case (Some found)
    let ?pm1 = "pm\<lparr>proposals := (proposals pm)(instanceId txnId r := None),
                   calls := calls pm @ [Proposal_FinishProposing (instanceId txnId r)]\<rparr>"
    from Cons.IH [of ?pm1] obtain new where
      a: "proposers (FinishProposers_loop ?pm1 txnId rs) = proposers ?pm1"
      and b: "\<forall>i. proposals (FinishProposers_loop ?pm1 txnId rs) i = proposals ?pm1 i \<or>
                 proposals (FinishProposers_loop ?pm1 txnId rs) i = None"
      and c: "calls (FinishProposers_loop ?pm1 txnId rs) = calls ?pm1 @ new"
      and d: "\<forall>c \<in> set new. \<exists>i. c = Proposal_FinishProposing i"
      by blast
    have e: "FinishProposers_loop pm txnId (r # rs) = FinishProposers_loop ?pm1 txnId rs"
      using Some by (simp add: Let_def)
    have "\<forall>i. proposals (FinishProposers_loop ?pm1 txnId rs) i = proposals pm i \<or>
               proposals (FinishProposers_loop ?pm1 txnId rs) i = None"
    proof
      fix i
      show "proposals (FinishProposers_loop ?pm1 txnId rs) i = proposals pm i \<or>
            proposals (FinishProposers_loop ?pm1 txnId rs) i = None"
        using b [rule_format, of i] by (cases "i = instanceId txnId r") auto
    qed
    moreover have "calls (FinishProposers_loop ?pm1 txnId rs) =
        calls pm @ (Proposal_FinishProposing (instanceId txnId r) # new)"
      using c by simp
    moreover have "\<forall>c \<in> set (Proposal_FinishProposing (instanceId txnId r) # new).
        \<exists>i. c = Proposal_FinishProposing i"
      using d by simp
    ultimately show ?thesis unfolding e using a by simp
  qed
qed

lemma FinishProposers_keeps: "keeps_entries pm (FinishProposers FP pm txnId)"
proof (cases "proposals pm (instanceId txnId (RMId pm))")
  case None
  then show ?thesis by (simp add: FinishProposers_def keeps_entries_refl)
next
  case (Some found)
  let ?pm1 = "pm\<lparr>proposals := (proposals pm)(instanceId txnId (RMId pm) := None),
                 calls := calls pm @ [Proposal_FinishProposing (instanceId txnId (RMId pm))]\<rparr>"
  have e: "FinishProposers FP pm txnId = FinishProposers_loop ?pm1 txnId (FP found)"
    using Some by (simp add: FinishProposers_def Let_def)
  from FinishProposers_loop_keeps [of ?pm1 txnId "FP found"] obtain new where
    a: "proposers (FinishProposers_loop ?pm1 txnId (FP found)) = proposers ?pm1"
    and b: "\<forall>i. proposals (FinishProposers_loop ?pm1 txnId (FP found)) i = proposals ?pm1 i \<or>
               proposals (FinishProposers_loop ?pm1 txnId (FP found)) i = None"
    and c: "calls (FinishProposers_loop ?pm1 txnId (FP found)) = calls ?pm1 @ new"
    and d: "\<forall>c \<in> set new. \<exists>i. c = Proposal_FinishProposing i"
    by blast
  have b': "proposals (FinishProposers_loop ?pm1 txnId (FP found)) i = proposals pm i \<or>
            proposals (FinishProposers_loop ?pm1 txnId (FP found)) i = None" for i
    using b [rule_format, of i] by (cases "i = instanceId txnId (RMId pm)") auto
  have p1: "\<forall>i p. proposals pm i = Some p \<longrightarrow>
        proposals (FinishProposers_loop ?pm1 txnId (FP found)) i = Some p \<or>
        proposals (FinishProposers_loop ?pm1 txnId (FP found)) i = None"
    using b' by metis
  have p2: "\<forall>k. Proposer_Start k \<notin>
              set (Proposal_FinishProposing (instanceId txnId (RMId pm)) # new)"
    and p3: "\<forall>i. Proposal_Start i \<notin>
              set (Proposal_FinishProposing (instanceId txnId (RMId pm)) # new)"
    using d by auto
  show ?thesis
    unfolding e keeps_entries_def using a p1 p2 p3 c by simp
qed

lemma pm_step_keeps: "pm_step PFD FP pm x = Inr pm' \<Longrightarrow> keeps_entries pm pm'"
proof (cases x)
  case (Op_loadFromData txnId data)
  assume "pm_step PFD FP pm x = Inr pm'"
  then show ?thesis using Op_loadFromData
    by (auto simp add: loadFromData_def keeps_entries_def split: option.splits if_splits)
next
  case (Op_TopologyChanged topo)
  assume "pm_step PFD FP pm x = Inr pm'"
  then show ?thesis using Op_TopologyChanged
    by (auto simp add: TopologyChanged_def keeps_entries_def)
next
  case (Op_ImmigrationReceived txn)
  assume "pm_step PFD FP pm x = Inr pm'"
  then show ?thesis using Op_ImmigrationReceived
    by (auto simp add: ImmigrationReceived_def keeps_entries_def)
next
  case (Op_TxnReceived sender txn)
  assume "pm_step PFD FP pm x = Inr pm'"
  then show ?thesis using Op_TxnReceived
    by (auto simp add: TxnReceived_def installProposer_def NewPaxosProposals_def Let_def
        keeps_entries_def split: option.splits sum.splits if_splits)
next
  case (Op_NewPaxosProposals txn f bs accs rmId skip)
  assume "pm_step PFD FP pm x = Inr pm'"
  then show ?thesis using Op_NewPaxosProposals
    by (auto simp add: NewPaxosProposals_def Let_def keeps_entries_def
        split: option.splits if_splits)
next
  case (Op_AddToPaxosProposals txnId bs rmId)
  assume "pm_step PFD FP pm x = Inr pm'"
  then show ?thesis using Op_AddToPaxosProposals
    by (auto simp add: AddToPaxosProposals_def Let_def keeps_entries_def
        split: option.splits if_splits)
next
  case (Op_OneBTxnVotesReceived sender txnId r votes)
  assume "pm_step PFD FP pm x = Inr pm'"
  then show ?thesis using Op_OneBTxnVotesReceived
    by (auto simp add: OneBTxnVotesReceived_def Let_def keeps_entries_def
        split: option.splits if_splits)
next
  case (Op_TwoBTxnVotesReceived sender txnId txn votes)
  assume "pm_step PFD FP pm x = Inr pm'"
  then show ?thesis using Op_TwoBTxnVotesReceived
    by (auto simp add: TwoBTxnVotesReceived_def NewPaxosProposals_def Let_def keeps_entries_def
        split: option.splits sum.splits if_splits TwoBTxnVotes.splits Outcome.splits)
next
  case (Op_TxnGloballyCompleteReceived sender txnId)
  assume "pm_step PFD FP pm x = Inr pm'"
  then show ?thesis using Op_TxnGloballyCompleteReceived
    by (auto simp add: TxnGloballyCompleteReceived_def keeps_entries_def
        split: option.splits if_splits)
next
  case (Op_TxnSubmissionAbortReceived sender txnId)
  assume "pm_step PFD FP pm x = Inr pm'"
  then show ?thesis using Op_TxnSubmissionAbortReceived
    by (auto simp add: TxnSubmissionAbortReceived_def keeps_entries_def
        split: option.splits if_splits)
next
  case (Op_TxnFinished txnId)
  assume "pm_step PFD FP pm x = Inr pm'"
  then show ?thesis using Op_TxnFinished
    by (auto simp add: TxnFinished_def keeps_entries_def split: if_splits)
next
  case (Op_FinishProposers txnId)
  assume "pm_step PFD FP pm x = Inr pm'"
  then show ?thesis using Op_FinishProposers FinishProposers_keeps by auto
qed

text \<open>
  Claim C4. Every operation of the manager keeps the maps' invariants. Each map holds at
  most one value per key, and distinct (transaction id, RM id) pairs have distinct keys in
  \<open>proposals\<close>; beyond that, no operation overwrites an entry: a proposer (a proposal) that
  is in its map before an operation is the same afterwards or has been deleted, and no
  operation starts a proposer (a proposal) under a key that already had one.
\<close>

theorem manager_never_overwrites:
  "pm_step ProposerFromData FinishProposing pm x = Inr pm' \<Longrightarrow>
   (\<forall>k p. proposers pm k = Some p \<longrightarrow> proposers pm' k = Some p \<or> proposers pm' k = None) \<and>
   (\<forall>i p. proposals pm i = Some p \<longrightarrow> proposals pm' i = Some p \<or> proposals pm' i = None) \<and>
   take (length (calls pm)) (calls pm') = calls pm \<and>
   (\<forall>k. Proposer_Start k \<in> set (drop (length (calls pm)) (calls pm')) \<longrightarrow>
        proposers pm k = None) \<and>
   (\<forall>i. Proposal_Start i \<in> set (drop (length (calls pm)) (calls pm')) \<longrightarrow>
        proposals pm i = None) \<and>
   (\<forall>t r t' r'. length t = length t' \<longrightarrow>
        (instanceId t r = instanceId t' r' \<longleftrightarrow> t = t' \<and> r = r'))"
proof -
  assume "pm_step ProposerFromData FinishProposing pm x = Inr pm'"
  then have "keeps_entries pm pm'" by (rule pm_step_keeps)
  moreover have "\<forall>t r t' r'. length t = length t' \<longrightarrow>
        (instanceId t r = instanceId t' r' \<longleftrightarrow> t = t' \<and> r = r')"
    by (simp add: instanceId_inj)
  ultimately show ?thesis
    unfolding keeps_entries_def by simp
qed

theorem manager_never_overwrites_witness:
  "pm_step ex_ProposerFromData ex_FinishProposing ex_pm_busy (Op_TxnReceived 2 ex_txn) =
     Inr (installProposer ex_pm_busy ex_txn ProposerActiveLearner) \<and>
   proposals ex_pm_busy (instanceId T1 1) = Some (NewProposal ex_txn 1 [] 1 [1] False) \<and>
   proposals (installProposer ex_pm_busy ex_txn ProposerActiveLearner) (instanceId T1 1) =
     Some (NewProposal ex_txn 1 [] 1 [1] False) \<and>
   Proposal_Start (instanceId T1 1) \<notin>
     set (drop (length (calls ex_pm_busy))
            (calls (installProposer ex_pm_busy ex_txn ProposerActiveLearner)))"
proof -
  have s: "pm_step ex_ProposerFromData ex_FinishProposing ex_pm_busy (Op_TxnReceived 2 ex_txn) =
      Inr (installProposer ex_pm_busy ex_txn ProposerActiveLearner)"
    by (simp add: TxnReceived_def TxnReceived_accept_def AllocForRMId_def
        GetAcceptorsFromTxn_eq MakeAbortBallots_Some NewPaxosProposals_def Let_def
        ex_pm_busy_def ex_pm_next_def ex_txn_def ex_alloc_def)
  have p: "proposals ex_pm_busy (instanceId T1 1) = Some (NewProposal ex_txn 1 [] 1 [1] False)"
    by (simp add: ex_pm_busy_def)
  have q: "proposals (installProposer ex_pm_busy ex_txn ProposerActiveLearner) (instanceId T1 1)
      \<noteq> None"
    by (simp add: installProposer_def ex_pm_busy_def)
  note m = manager_never_overwrites [OF s]
  from m have k: "\<forall>i p. proposals ex_pm_busy i = Some p \<longrightarrow>
       proposals (installProposer ex_pm_busy ex_txn ProposerActiveLearner) i = Some p \<or>
       proposals (installProposer ex_pm_busy ex_txn ProposerActiveLearner) i = None"
    by (elim conjE)
  from m have n: "\<forall>i. Proposal_Start i \<in> set (drop (length (calls ex_pm_busy))
            (calls (installProposer ex_pm_busy ex_txn ProposerActiveLearner))) \<longrightarrow>
          proposals ex_pm_busy i = None"
    by (elim conjE)
  from k [rule_format, OF p] q
  have "proposals (installProposer ex_pm_busy ex_txn ProposerActiveLearner)
      (instanceId T1 1) = Some (NewProposal ex_txn 1 [] 1 [1] False)"
    by (elim disjE) (assumption, erule notE)
  moreover from n [rule_format, of "instanceId T1 1"] p have "Proposal_Start (instanceId T1 1) \<notin>
     set (drop (length (calls ex_pm_busy))
            (calls (installProposer ex_pm_busy ex_txn ProposerActiveLearner)))"
    by auto
  ultimately show ?thesis using s p by simp
qed

subsection \<open>The transaction engine: what every step keeps\<close>

lemmas txn_basic_defs = emit_def EnqueueFuncAsync_def setCurrentState_def ApplyToVar_each_def

lemma nextState_late_cases:
  "nextState_late t = Inr t' \<Longrightarrow>
     (currentState t = Some AwaitLocallyComplete \<and> t' = setCurrentState (Some ReceiveCompletion) t) \<or>
     (currentState t = Some ReceiveCompletion \<and> t' = setCurrentState None t)"
  by (auto simp add: nextState_late_def split: option.splits txnState.splits)

lemma nextState_keeps:
  "nextState t = Inr t' \<Longrightarrow>
     outcomeClock t' = outcomeClock t \<and> aborted t' = aborted t \<and>
     localActions t' = localActions t \<and> preAbortedBool t' = preAbortedBool t \<and>
     voter t' = voter t \<and> pendingVote t' = pendingVote t \<and> exe t' = exe t \<and>
     preAborted t' = preAborted t \<and> completed t' = completed t \<and>
     activeFramesCount t' = activeFramesCount t"
  by (auto simp add: nextState_def nextState_late_def txnAwaitLocallyComplete_start_def
      locallyComplete_def txn_basic_defs split: option.splits txnState.splits if_splits)

lemma BallotOutcomeReceived_recorded:
  "outcomeClock t \<noteq> None \<or> aborted t \<Longrightarrow> BallotOutcomeReceived t outcome = Inr t"
  by (simp add: BallotOutcomeReceived_def)

lemma BallotOutcomeReceived_records:
  assumes "BallotOutcomeReceived t outcome = Inr t'"
  shows "outcomeClock t' \<noteq> None \<or> aborted t'"
proof (cases "outcomeClock t \<noteq> None \<or> aborted t")
  case True
  with assms show ?thesis by (simp add: BallotOutcomeReceived_def)
next
  case False
  define t1 where "t1 = (case outcome of
       OUTCOME_COMMIT data \<Rightarrow> t\<lparr>outcomeClock := Some (VectorClockFromData data True)\<rparr>
     | OUTCOME_ABORT \<Rightarrow> t\<lparr>aborted := True\<rparr>)"
  have r1: "outcomeClock t1 \<noteq> None \<or> aborted t1"
    by (cases outcome) (simp_all add: t1_def)
  from assms False obtain t2 where n: "nextState t1 = Inr t2"
    and t': "t' = t2 \<or> t' = stampOutcome t2"
    by (auto simp add: BallotOutcomeReceived_def t1_def [symmetric] Let_def
        split: if_splits sum.splits)
  from nextState_keeps [OF n] r1 have "outcomeClock t2 \<noteq> None \<or> aborted t2" by simp
  with t' show ?thesis by (auto simp add: stampOutcome_def txn_basic_defs)
qed

lemma run_recorded:
  "outcomeClock t \<noteq> None \<or> aborted t \<Longrightarrow>
   txn_run t (map Op_BallotOutcomeReceived outcomes) = Inr t"
  by (induction outcomes) (simp_all add: BallotOutcomeReceived_recorded)

lemma run_replicate:
  "txn_run t (replicate (Suc n) (Op_BallotOutcomeReceived outcome)) =
     BallotOutcomeReceived t outcome"
proof (cases "BallotOutcomeReceived t outcome")
  case (Inl p)
  then show ?thesis by simp
next
  case (Inr t')
  then have "outcomeClock t' \<noteq> None \<or> aborted t'" by (rule BallotOutcomeReceived_records)
  then have "txn_run t' (map Op_BallotOutcomeReceived (replicate n outcome)) = Inr t'"
    by (rule run_recorded)
  with Inr show ?thesis by simp
qed

lemma ballotsCompleted_append [simp]:
  "ballotsCompleted (xs @ ys) = ballotsCompleted xs @ ballotsCompleted ys"
  by (induction xs rule: ballotsCompleted.induct) simp_all

lemma ballotsCompleted_ApplyToVar [simp]:
  "ballotsCompleted (map (\<lambda>i. ApplyToVar (f i) c (g i)) is) = []"
  by (induction "is") simp_all

lemma count_ApplyToVar [simp]:
  "count_list (map (\<lambda>i. ApplyToVar (f i) c (g i)) is) (Enqueued x) = 0"
  by (induction "is") simp_all

lemma filter_update_new:
  "i < length xs \<Longrightarrow> \<not> P (xs ! i) \<Longrightarrow> P y \<Longrightarrow>
   length (filter P (xs[i := y])) = Suc (length (filter P xs))"
proof (induction xs arbitrary: i)
  case Nil
  then show ?case by simp
next
  case (Cons x xs)
  then show ?case by (cases i) auto
qed

lemma filter_update_same:
  "i < length xs \<Longrightarrow> P y = P (xs ! i) \<Longrightarrow>
   length (filter P (xs[i := y])) = length (filter P xs)"
proof (induction xs arbitrary: i)
  case Nil
  then show ?case by simp
next
  case (Cons x xs)
  then show ?case by (cases i) auto
qed

lemma filter_full:
  "length (filter P xs) = length xs \<Longrightarrow> i < length xs \<Longrightarrow> P (xs ! i)"
  using length_filter_less [of "xs ! i" xs P] by (cases "P (xs ! i)") auto

lemma pending_zero:
  assumes "k < n" "n < 2 ^ 32"
  shows "(of_nat n :: 32 word) - of_nat (Suc k) = 0 \<longleftrightarrow> Suc k = n"
proof -
  from assms have le: "Suc k \<le> n" by simp
  have d: "(of_nat (n - Suc k) :: 32 word) = of_nat n - of_nat (Suc k)"
    using le by (rule of_nat_diff)
  have "(of_nat (n - Suc k) :: 32 word) = 0 \<longleftrightarrow> n - Suc k = 0"
  proof
    assume "(of_nat (n - Suc k) :: 32 word) = 0"
    then have "2 ^ 32 dvd n - Suc k" by (simp add: word_of_nat_eq_0_iff)
    moreover have "n - Suc k < 2 ^ 32" using assms by simp
    ultimately show "n - Suc k = 0" by (meson dvd_imp_le not_less zero_less_iff_neq_zero)
  qed simp
  with d le show ?thesis by (metis diff_is_0_eq le_antisym)
qed

lemma Start_voter:
  "Start t True =
     Inr (t\<lparr>voter := True,
            pendingVote := of_nat (length (localActions t)),
            activeFramesCount := of_nat (length (localActions t)),
            currentState := Some AwaitLocalBallots,
            effects := effects t @
              [StateEntered (Some DetermineLocalBallots), StateEntered (Some AwaitLocalBallots)] @
              map (\<lambda>idx. ApplyToVar (ReceiveTxn_fn idx) True (vUUId (localActions t ! idx)))
                [0 ..< length (localActions t)]\<rparr>)"
  by (simp add: Start_def txnDetermineLocalBallots_start_def nextState_def txn_basic_defs Let_def)

lemma Start_inv:
  assumes "newTxn t" "Start t True = Inr t0"
  shows "voter_inv (length (localActions t)) t0"
proof -
  from assms(1) have "filter (\<lambda>action. ballot action \<noteq> None) (localActions t) = []"
    by (auto simp add: newTxn_def list_all_iff filter_empty_conv)
  with assms show ?thesis
    by (auto simp add: Start_voter voter_inv_def votesCast_def newTxn_def)
qed

lemma cast_inv:
  assumes inv: "voter_inv n t" and idx: "idx < length (localActions t)"
    and none: "ballot (localActions t ! idx) = None" and n: "n < 2 ^ 32"
  shows "voter_inv n (snd (castBallot t idx b abort))"
proof -
  let ?la = "(localActions t)[idx := (localActions t ! idx)\<lparr>ballot := Some b\<rparr>]"
  let ?k = "votesCast t"
  from inv have len: "length (localActions t) = n" by (simp add: voter_inv_def)
  have kn: "?k < n"
  proof (rule ccontr)
    assume "\<not> ?k < n"
    moreover have "?k \<le> n" using len by (simp add: votesCast_def) (metis length_filter_le)
    ultimately have "length (filter (\<lambda>action. ballot action \<noteq> None) (localActions t)) =
        length (localActions t)"
      using len by (simp add: votesCast_def)
    from filter_full [OF this idx] none show False by simp
  qed
  with inv have s2: "currentState t = Some AwaitLocalBallots"
    and noq: "allTxnBallotsComplete_task \<notin> set (exe t)"
    and cnt: "count_list (effects t) (Enqueued allTxnBallotsComplete_task) = 0"
    and bc: "ballotsCompleted (effects t) = []"
    and pv: "pendingVote t = of_nat n - of_nat ?k"
    by (auto simp add: voter_inv_def)
  have k': "length (filter (\<lambda>action. ballot action \<noteq> None) ?la) = Suc ?k"
    unfolding votesCast_def using idx none by (intro filter_update_new) simp_all
  have pv': "pendingVote t - 1 = of_nat n - of_nat (Suc ?k)"
    using pv by simp
  have z: "pendingVote t - 1 = 0 \<longleftrightarrow> Suc ?k = n"
    unfolding pv' using kn n by (rule pending_zero)
  show ?thesis
    using len s2 noq cnt bc pv' z k' kn
    by (auto simp add: castBallot_def voteCast_def voter_inv_def votesCast_def txn_basic_defs Let_def)
qed

lemma vote_ops_inv:
  assumes "voter_inv n t" "n < 2 ^ 32" "idx < length (localActions t)"
  shows "voter_inv n (VoteDeadlock t idx clock)"
    and "voter_inv n (VoteBadRead t idx clock txnId)"
    and "voter_inv n (snd (VoteCommit t idx clock subs))"
  using assms cast_inv [OF assms(1) assms(3) _ assms(2)]
  by (auto simp add: VoteDeadlock_def VoteBadRead_def VoteCommit_def Let_def split: prod.splits)
    (metis snd_conv)

lemma setFrame_inv:
  assumes "voter_inv n t" "idx < length (localActions t)"
  shows "voter_inv n (t\<lparr>localActions := (localActions t)[idx := (localActions t ! idx)\<lparr>frame := Some f\<rparr>]\<rparr>)"
proof -
  let ?la = "(localActions t)[idx := (localActions t ! idx)\<lparr>frame := Some f\<rparr>]"
  have a: "length (filter (\<lambda>action. ballot action \<noteq> None) ?la) =
           length (filter (\<lambda>action. ballot action \<noteq> None) (localActions t))"
    using assms(2) by (intro filter_update_same) simp_all
  have b: "map ballot ?la = map ballot (localActions t)"
    using assms(2) by (simp add: map_update list_update_same_conv)
  from assms(1) show ?thesis
    unfolding voter_inv_def votesCast_def using a b by simp
qed

lemma nextState_inv_late:
  assumes "voter_inv n t" "currentState t \<noteq> Some AwaitLocalBallots" "nextState t = Inr t'"
  shows "voter_inv n t' \<and> currentState t' \<noteq> Some AwaitLocalBallots"
  using assms
  by (auto simp add: voter_inv_def votesCast_def nextState_def nextState_late_def
      txnAwaitLocallyComplete_start_def locallyComplete_def txn_basic_defs
      split: option.splits txnState.splits if_splits)

lemma locallyComplete_inv:
  assumes "voter_inv n t" "locallyComplete t = Inr t'"
  shows "voter_inv n t'"
  using assms
  by (auto simp add: voter_inv_def votesCast_def nextState_late_def
      locallyComplete_def txn_basic_defs
      split: option.splits txnState.splits if_splits)

lemma preAbort_inv:
  assumes "voter_inv n t" "preAbort t = Inr t'"
  shows "voter_inv n t'"
  using assms
  by (auto simp add: voter_inv_def votesCast_def preAbort_def txn_basic_defs split: if_splits)

lemma allTxnBallotsComplete_eq:
  "currentState t = Some AwaitLocalBallots \<Longrightarrow>
   allTxnBallotsComplete t =
     Inr (t\<lparr>currentState := Some ReceiveOutcome,
            effects := effects t @ [StateEntered (Some ReceiveOutcome),
                                    TxnBallotsComplete (map ballot (localActions t))]\<rparr>)"
  by (simp add: allTxnBallotsComplete_def nextState_def txn_basic_defs)

lemma allTxnBallotsComplete_inv:
  assumes "voter_inv n t" "votesCast t = n" "allTxnBallotsComplete t = Inr t'"
  shows "voter_inv n t'"
proof -
  from assms(3) have s2: "currentState t = Some AwaitLocalBallots"
    by (simp add: allTxnBallotsComplete_def split: if_splits)
  with assms show ?thesis
    by (auto simp add: allTxnBallotsComplete_eq voter_inv_def votesCast_def)
qed

lemma exe_tail_inv: "voter_inv n t \<Longrightarrow> exe t = f # fs \<Longrightarrow> voter_inv n (t\<lparr>exe := fs\<rparr>)"
  by (auto simp add: voter_inv_def votesCast_def)

lemma exe_run_inv:
  assumes "voter_inv n t" "txn_step t Op_exe_run = Inr t'"
  shows "voter_inv n t'"
proof (cases "exe t")
  case Nil
  with assms show ?thesis by simp
next
  case (Cons f fs)
  note tl = exe_tail_inv [OF assms(1) Cons]
  from assms(2) Cons have r: "run_task (t\<lparr>exe := fs\<rparr>) f = Inr t'" by simp
  show ?thesis
  proof (cases f)
    case preAbort_task
    with r tl show ?thesis by (simp add: preAbort_inv)
  next
    case allTxnBallotsComplete_task
    with assms(1) Cons have "votesCast t = n" by (simp add: voter_inv_def)
    then have "votesCast (t\<lparr>exe := fs\<rparr>) = n" by (simp add: votesCast_def)
    with r tl allTxnBallotsComplete_task show ?thesis
      by (simp add: allTxnBallotsComplete_inv)
  next
    case locallyComplete_task
    with r tl show ?thesis by (simp add: locallyComplete_inv)
  qed
qed

lemma stampOutcome_inv: "voter_inv n t \<Longrightarrow> currentState t \<noteq> Some AwaitLocalBallots \<Longrightarrow>
   voter_inv n (stampOutcome t)"
  by (auto simp add: voter_inv_def votesCast_def stampOutcome_def txn_basic_defs
      filter_map comp_def)

lemma BallotOutcomeReceived_inv:
  assumes "voter_inv n t" "BallotOutcomeReceived t outcome = Inr t'"
  shows "voter_inv n t'"
proof (cases "outcomeClock t \<noteq> None \<or> aborted t")
  case True
  with assms show ?thesis by (simp add: BallotOutcomeReceived_def)
next
  case False
  define t1 where "t1 = (case outcome of
       OUTCOME_COMMIT data \<Rightarrow> t\<lparr>outcomeClock := Some (VectorClockFromData data True)\<rparr>
     | OUTCOME_ABORT \<Rightarrow> t\<lparr>aborted := True\<rparr>)"
  from assms False have s3: "currentState t = Some ReceiveOutcome"
    by (auto simp add: BallotOutcomeReceived_def split: if_splits)
  have i1: "voter_inv n t1" and c1: "currentState t1 \<noteq> Some AwaitLocalBallots"
    using assms(1) s3 by (cases outcome; simp add: t1_def voter_inv_def votesCast_def)+
  from assms False obtain t2 where n: "nextState t1 = Inr t2"
    and t': "t' = t2 \<or> t' = stampOutcome t2"
    by (auto simp add: BallotOutcomeReceived_def t1_def [symmetric] Let_def
        split: if_splits sum.splits)
  from nextState_inv_late [OF i1 c1 n] t' show ?thesis
    by (auto simp add: stampOutcome_inv)
qed

lemma LocallyComplete_inv:
  assumes "voter_inv n t" "LocallyComplete t = Inr t'"
  shows "voter_inv n t'"
  using assms
  by (auto simp add: voter_inv_def votesCast_def LocallyComplete_def txn_basic_defs Let_def
      split: if_splits)

lemma CompletionReceived_inv:
  assumes "voter_inv n t" "CompletionReceived t = Inr t'"
  shows "voter_inv n t'"
proof (cases "completed t")
  case True
  with assms show ?thesis by (simp add: CompletionReceived_def)
next
  case False
  with assms have s5: "currentState t = Some ReceiveCompletion"
    by (auto simp add: CompletionReceived_def split: if_splits)
  with assms False show ?thesis
    by (auto simp add: CompletionReceived_def maybeFinish_def nextState_def nextState_late_def
        voter_inv_def votesCast_def txn_basic_defs split: if_splits)
qed

lemma txn_step_inv:
  assumes "voter_inv n t" "n < 2 ^ 32" "txn_step t x = Inr t'"
  shows "voter_inv n t'"
proof (cases x)
  case (Op_VoteDeadlock idx clock)
  with assms show ?thesis by (auto simp add: vote_ops_inv split: if_splits)
next
  case (Op_VoteBadRead idx clock txnId)
  with assms show ?thesis by (auto simp add: vote_ops_inv split: if_splits)
next
  case (Op_VoteCommit idx clock subs)
  with assms show ?thesis by (auto simp add: vote_ops_inv split: if_splits)
next
  case (Op_setFrame idx f)
  with assms show ?thesis by (auto simp add: setFrame_inv split: if_splits)
next
  case Op_exe_run
  with assms show ?thesis by (simp add: exe_run_inv)
next
  case (Op_BallotOutcomeReceived outcome)
  with assms show ?thesis by (simp add: BallotOutcomeReceived_inv)
next
  case Op_LocallyComplete
  with assms show ?thesis by (simp add: LocallyComplete_inv)
next
  case Op_CompletionReceived
  with assms show ?thesis by (simp add: CompletionReceived_inv)
qed

lemma txn_run_inv:
  "voter_inv n t \<Longrightarrow> n < 2 ^ 32 \<Longrightarrow> txn_run t xs = Inr t' \<Longrightarrow> voter_inv n t'"
proof (induction xs arbitrary: t)
  case Nil
  then show ?case by simp
next
  case (Cons x xs)
  then show ?case by (auto split: sum.splits dest: txn_step_inv)
qed











lemmas ex_txn_defs =
  ex_action_def ex_fresh_def ex_started_def ex_voted_def ex_committed_def ex_preaborted_def
  ex_aborted_def ex_varCaps_def ex_immigrant_def

subsection \<open>Outcomes\<close>

text \<open>
  Claim C3. Once a transaction has recorded an outcome (its outcome clock is set or its
  \<open>aborted\<close> flag is), every later \<open>BallotOutcomeReceived\<close> returns and changes nothing,
  whatever outcomes are fed: the outcome clock is never overwritten. A call that returns
  has recorded an outcome, so feeding the same outcome \<open>n + 1\<close> times does what feeding it
  once does.
\<close>

theorem BallotOutcomeReceived_once:
  "(outcomeClock t \<noteq> None \<or> aborted t \<longrightarrow>
      BallotOutcomeReceived t outcome = Inr t \<and>
      txn_run t (map Op_BallotOutcomeReceived outcomes) = Inr t) \<and>
   (\<forall>t'. BallotOutcomeReceived t outcome = Inr t' \<longrightarrow> outcomeClock t' \<noteq> None \<or> aborted t') \<and>
   txn_run t (replicate (Suc n) (Op_BallotOutcomeReceived outcome)) =
     BallotOutcomeReceived t outcome"
  using BallotOutcomeReceived_recorded run_recorded BallotOutcomeReceived_records run_replicate
  by blast

theorem BallotOutcomeReceived_once_witness:
  "BallotOutcomeReceived ex_voted (OUTCOME_COMMIT [9]) = Inr ex_committed \<and>
   outcomeClock ex_committed = Some (VectorClockFromData [9] True) \<and>
   BallotOutcomeReceived ex_committed (OUTCOME_COMMIT [5]) = Inr ex_committed \<and>
   txn_run ex_committed
     [Op_BallotOutcomeReceived (OUTCOME_COMMIT [5]), Op_BallotOutcomeReceived OUTCOME_ABORT] =
     Inr ex_committed \<and>
   txn_run ex_voted (replicate 3 (Op_BallotOutcomeReceived (OUTCOME_COMMIT [9]))) =
     Inr ex_committed"
proof -
  have a: "BallotOutcomeReceived ex_voted (OUTCOME_COMMIT [9]) = Inr ex_committed"
    by (simp add: BallotOutcomeReceived_def nextState_def txnAwaitLocallyComplete_start_def
        stampOutcome_def txn_basic_defs Let_def ex_txn_defs)
  have b: "outcomeClock ex_committed = Some (VectorClockFromData [9] True)"
    by (simp add: ex_committed_def)
  have c: "replicate 3 (Op_BallotOutcomeReceived (OUTCOME_COMMIT [9])) =
      replicate (Suc 2) (Op_BallotOutcomeReceived (OUTCOME_COMMIT [9]))"
    by (simp add: numeral_3_eq_3)
  from b have b': "outcomeClock ex_committed \<noteq> None \<or> aborted ex_committed"
    by simp
  note o1 = BallotOutcomeReceived_once [of ex_committed "OUTCOME_COMMIT [5]"
      "[OUTCOME_COMMIT [5], OUTCOME_ABORT]" 0, THEN conjunct1, rule_format, OF b']
  from o1 have d: "BallotOutcomeReceived ex_committed (OUTCOME_COMMIT [5]) = Inr ex_committed"
    by (rule conjunct1)
  from o1 have "txn_run ex_committed
      (map Op_BallotOutcomeReceived [OUTCOME_COMMIT [5], OUTCOME_ABORT]) = Inr ex_committed"
    by (rule conjunct2)
  then have e: "txn_run ex_committed
     [Op_BallotOutcomeReceived (OUTCOME_COMMIT [5]), Op_BallotOutcomeReceived OUTCOME_ABORT] =
     Inr ex_committed"
    by (simp only: list.map)
  note o2 = BallotOutcomeReceived_once [of ex_voted "OUTCOME_COMMIT [9]" "[]" 2,
      THEN conjunct2, THEN conjunct2]
  have g: "txn_run ex_voted (replicate 3 (Op_BallotOutcomeReceived (OUTCOME_COMMIT [9]))) =
     Inr ex_committed"
    unfolding c using o2 a by (simp only:)
  from a b d e g show ?thesis
    by (intro conjI)
qed

text \<open>
  Claim C6, amended. For every transaction in \<open>ReceiveOutcome\<close> with no outcome recorded
  whose \<open>preAbortedBool\<close> is set, \<open>BallotOutcomeReceived\<close> with a commit panics, and with an
  abort it sets \<open>aborted\<close>, enters \<open>AwaitLocallyComplete\<close> and, the transaction being aborted,
  goes on at once to \<open>ReceiveCompletion\<close> and calls \<open>TxnLocallyComplete\<close>; it stamps no outcome
  clock on a local action and hands nothing to a variable.
\<close>

theorem preAborted_outcome:
  "currentState t = Some ReceiveOutcome \<Longrightarrow> outcomeClock t = None \<Longrightarrow> \<not> aborted t \<Longrightarrow>
   preAbortedBool t \<Longrightarrow>
     BallotOutcomeReceived t (OUTCOME_COMMIT clock) = Inl PreAbortedButCommit \<and>
     BallotOutcomeReceived t OUTCOME_ABORT =
       Inr (t\<lparr>aborted := True,
              currentState := Some ReceiveCompletion,
              effects := effects t @ [StateEntered (Some AwaitLocallyComplete),
                                      StateEntered (Some ReceiveCompletion),
                                      TxnLocallyComplete_callback]\<rparr>)"
  by (simp add: BallotOutcomeReceived_def nextState_def txnAwaitLocallyComplete_start_def
      locallyComplete_def nextState_late_def txn_basic_defs Let_def)

theorem preAborted_outcome_witness:
  "currentState ex_preaborted = Some ReceiveOutcome \<and> outcomeClock ex_preaborted = None \<and>
   \<not> aborted ex_preaborted \<and> preAbortedBool ex_preaborted \<and>
   BallotOutcomeReceived ex_preaborted (OUTCOME_COMMIT [9]) = Inl PreAbortedButCommit \<and>
   BallotOutcomeReceived ex_preaborted OUTCOME_ABORT = Inr ex_aborted \<and>
   localActions ex_aborted = localActions ex_preaborted"
proof -
  have h: "currentState ex_preaborted = Some ReceiveOutcome" "outcomeClock ex_preaborted = None"
    "\<not> aborted ex_preaborted" "preAbortedBool ex_preaborted"
    by (simp_all add: ex_txn_defs)
  from preAborted_outcome [OF h, of "[9]"] h show ?thesis
    by (simp add: ex_aborted_def)
qed

text \<open>
  The claim as it stands fails: after the abort outcome the transaction is not in
  \<open>AwaitLocallyComplete\<close> but in \<open>ReceiveCompletion\<close>, and \<open>TxnLocallyComplete\<close> has been called.
\<close>

theorem preAborted_abort_reaches_ReceiveCompletion:
  "currentState ex_preaborted = Some ReceiveOutcome \<and> preAbortedBool ex_preaborted \<and>
   BallotOutcomeReceived ex_preaborted OUTCOME_ABORT = Inr ex_aborted \<and>
   currentState ex_aborted = Some ReceiveCompletion \<and>
   currentState ex_aborted \<noteq> Some AwaitLocallyComplete \<and>
   last (effects ex_aborted) = TxnLocallyComplete_callback"
  by (simp add: BallotOutcomeReceived_def nextState_def txnAwaitLocallyComplete_start_def
      locallyComplete_def nextState_late_def txn_basic_defs Let_def ex_txn_defs)

subsection \<open>Votes\<close>

text \<open>
  Claim C8, amended. For every voter with \<open>n\<close> local actions (\<open>n\<close> below \<open>2^32\<close>, the counter
  being an \<open>int32\<close>) at every moment after \<open>Start(true)\<close>: each \<open>voteCast\<close> takes one off
  \<open>pendingVote\<close> and enqueues \<open>allTxnBallotsComplete\<close> exactly if that makes it zero, so
  \<open>pendingVote\<close> is \<open>n\<close> less the votes cast and \<open>allTxnBallotsComplete\<close> has been enqueued once
  if all \<open>n\<close> votes are cast and not at all before; \<open>allTxnBallotsComplete\<close>, run in
  \<open>AwaitLocalBallots\<close>, first advances the state to \<open>ReceiveOutcome\<close> and then calls
  \<open>TxnBallotsComplete\<close> with the ballots of the local actions (and panics in any other
  state); and a voter that is beyond \<open>AwaitLocalBallots\<close> has called \<open>TxnBallotsComplete\<close>
  exactly once, with exactly \<open>n\<close> ballots, none of them nil, one per local action.
\<close>

theorem voter_emits_all_ballots:
  "newTxn t \<Longrightarrow> length (localActions t) < 2 ^ 32 \<Longrightarrow> Start t True = Inr t0 \<Longrightarrow>
   txn_run t0 ops = Inr t' \<Longrightarrow>
     pendingVote (snd (voteCast u b abort)) = pendingVote u - 1 \<and>
     (Enqueued allTxnBallotsComplete_task
        \<in> set (drop (length (effects u)) (effects (snd (voteCast u b abort))))
      \<longleftrightarrow> pendingVote u - 1 = 0) \<and>
     pendingVote t' = of_nat (length (localActions t)) - of_nat (votesCast t') \<and>
     count_list (effects t') (Enqueued allTxnBallotsComplete_task) =
       (if votesCast t' = length (localActions t) \<and> localActions t \<noteq> [] then 1 else 0) \<and>
     (currentState u = Some AwaitLocalBallots \<longrightarrow>
        allTxnBallotsComplete u =
          Inr (u\<lparr>currentState := Some ReceiveOutcome,
                 effects := effects u @ [StateEntered (Some ReceiveOutcome),
                                         TxnBallotsComplete (map ballot (localActions u))]\<rparr>)) \<and>
     (currentState u \<noteq> Some AwaitLocalBallots \<longrightarrow>
        allTxnBallotsComplete u = Inl BallotsCompletedInWrongState) \<and>
     (currentState t' = Some AwaitLocalBallots \<longrightarrow> ballotsCompleted (effects t') = []) \<and>
     (currentState t' \<noteq> Some AwaitLocalBallots \<longrightarrow>
        ballotsCompleted (effects t') = [map ballot (localActions t')] \<and>
        length (localActions t') = length (localActions t) \<and>
        list_all (\<lambda>action. ballot action \<noteq> None) (localActions t'))"
proof -
  assume new: "newTxn t" and n: "length (localActions t) < 2 ^ 32"
    and start: "Start t True = Inr t0" and run: "txn_run t0 ops = Inr t'"
  from Start_inv [OF new start] have "voter_inv (length (localActions t)) t0" .
  from txn_run_inv [OF this n run] have inv: "voter_inv (length (localActions t)) t'" .
  have full: "list_all (\<lambda>action. ballot action \<noteq> None) (localActions t')"
    if "votesCast t' = length (localActions t')"
  proof -
    from that have "\<forall>i < length (localActions t'). ballot (localActions t' ! i) \<noteq> None"
      unfolding votesCast_def using filter_full by blast
    then show ?thesis by (simp add: list_all_length)
  qed
  have v1: "pendingVote (snd (voteCast u b abort)) = pendingVote u - 1"
    by (simp add: voteCast_def txn_basic_defs Let_def)
  have v2: "Enqueued allTxnBallotsComplete_task
        \<in> set (drop (length (effects u)) (effects (snd (voteCast u b abort))))
      \<longleftrightarrow> pendingVote u - 1 = 0"
    by (simp add: voteCast_def txn_basic_defs Let_def)
  have a2: "currentState u \<noteq> Some AwaitLocalBallots \<longrightarrow>
        allTxnBallotsComplete u = Inl BallotsCompletedInWrongState"
    by (simp add: allTxnBallotsComplete_def)
  from inv full show ?thesis
    unfolding voter_inv_def using v1 v2 a2 allTxnBallotsComplete_eq [of u]
    by (auto simp add: length_greater_0_conv [symmetric] simp del: length_greater_0_conv)
qed

theorem voter_emits_all_ballots_witness:
  "newTxn ex_fresh \<and> length (localActions ex_fresh) < 2 ^ 32 \<and>
   Start ex_fresh True = Inr ex_started \<and>
   txn_run ex_started
     [Op_VoteDeadlock 0 None, Op_VoteDeadlock 1 None, Op_exe_run, Op_exe_run] =
     Inr ex_preaborted \<and>
   currentState ex_preaborted = Some ReceiveOutcome \<and>
   pendingVote ex_preaborted = 0 \<and>
   votesCast ex_preaborted = 2 \<and>
   count_list (effects ex_preaborted) (Enqueued allTxnBallotsComplete_task) = 1 \<and>
   ballotsCompleted (effects ex_preaborted) =
     [[Some (NewBallot [1] AbortDeadlock None None), Some (NewBallot [2] AbortDeadlock None None)]]"
proof -
  have a: "newTxn ex_fresh"
    by (simp add: newTxn_def ex_txn_defs)
  have b: "length (localActions ex_fresh) < 2 ^ 32"
    by (simp add: ex_txn_defs)
  have c: "Start ex_fresh True = Inr ex_started"
    by (simp add: Start_voter ex_txn_defs upt_rec)
  have d: "txn_run ex_started
     [Op_VoteDeadlock 0 None, Op_VoteDeadlock 1 None, Op_exe_run, Op_exe_run] =
     Inr ex_preaborted"
    by (simp add: VoteDeadlock_def castBallot_def voteCast_def preAbort_def
        allTxnBallotsComplete_def nextState_def txn_basic_defs Let_def ex_txn_defs upt_rec)
  have e: "currentState ex_preaborted = Some ReceiveOutcome"
    "votesCast ex_preaborted = 2"
    "map ballot (localActions ex_preaborted) =
       [Some (NewBallot [1] AbortDeadlock None None), Some (NewBallot [2] AbortDeadlock None None)]"
    "localActions ex_fresh \<noteq> []" "length (localActions ex_fresh) = 2"
    by (simp_all add: votesCast_def ex_txn_defs)
  from voter_emits_all_ballots [OF a b c d] a b c d show ?thesis
    by (simp add: e)
qed

text \<open>
  The claim as it stands has \<open>allTxnBallotsComplete\<close> call back first and advance the state
  afterwards. It is the other way round: when the callback is made the transaction has
  already entered \<open>ReceiveOutcome\<close>.
\<close>

theorem allTxnBallotsComplete_advances_first:
  "txn_run ex_started [Op_VoteCommit 0 None None, Op_VoteCommit 1 None None, Op_exe_run] =
     Inr ex_voted \<and>
   drop (length (effects ex_started) + 1) (effects ex_voted) =
     [StateEntered (Some ReceiveOutcome),
      TxnBallotsComplete [Some (NewBallot [1] Commit None None),
                          Some (NewBallot [2] Commit None None)]]"
  by (simp add: VoteCommit_def castBallot_def voteCast_def allTxnBallotsComplete_def
      nextState_def txn_basic_defs Let_def ex_txn_defs)

subsection \<open>Immigration\<close>



end
